theory Spec2Isabelle
  imports Complex_Main "HOL-Library.Sublist"
begin

section \<open>Data model\<close>

text \<open>
  The plank classifier (\<^verbatim>\<open>lib/poseDetection.ts\<close>), in its front-facing and its side-view
  variant, and the stability gate of the \<^verbatim>\<open>usePoseDetection\<close> hook. A JavaScript
  \<^verbatim>\<open>number\<close> that holds a coordinate or a visibility score is the \<^typ>\<open>real\<close> it denotes;
  there is no NaN. The sums and differences of coordinates that the checks compare with
  their thresholds are exact. An angle is computed in double precision, every operation
  rounding to the nearest double. The running confidence only ever holds \<open>100\<close> minus a
  sum of integer literals, and the frame counters only ever count up from \<open>0\<close>, so both
  are \<^typ>\<open>int\<close>.
\<close>

record NormalizedLandmark =
  x :: real
  y :: real
  z :: real
  visibility :: real

text \<open>
  A landmark array. A slot of a JavaScript array can hold \<^verbatim>\<open>undefined\<close>, and reading
  past the end gives \<^verbatim>\<open>undefined\<close> as well; both are \<open>None\<close> here.
\<close>

type_synonym LandmarkFrame = "NormalizedLandmark option list"

definition slot :: "LandmarkFrame \<Rightarrow> nat \<Rightarrow> NormalizedLandmark option" where
  "slot lms idx = (if idx < length lms then lms ! idx else None)"

record PlankDetectionResult =
  isPlank :: bool
  confidence :: int
  feedback :: "string list"
  landmarks :: "LandmarkFrame option"

text \<open>Reading a property of \<^verbatim>\<open>undefined\<close> throws a \<^verbatim>\<open>TypeError\<close>.\<close>

datatype js_error = TypeError

subsection \<open>\<^verbatim>\<open>POSE_LANDMARKS\<close>\<close>

definition NOSE :: nat where "NOSE = 0"
definition LEFT_SHOULDER :: nat where "LEFT_SHOULDER = 11"
definition RIGHT_SHOULDER :: nat where "RIGHT_SHOULDER = 12"
definition LEFT_ELBOW :: nat where "LEFT_ELBOW = 13"
definition RIGHT_ELBOW :: nat where "RIGHT_ELBOW = 14"
definition LEFT_WRIST :: nat where "LEFT_WRIST = 15"
definition RIGHT_WRIST :: nat where "RIGHT_WRIST = 16"
definition LEFT_HIP :: nat where "LEFT_HIP = 23"
definition RIGHT_HIP :: nat where "RIGHT_HIP = 24"
definition LEFT_KNEE :: nat where "LEFT_KNEE = 25"
definition RIGHT_KNEE :: nat where "RIGHT_KNEE = 26"
definition LEFT_ANKLE :: nat where "LEFT_ANKLE = 27"
definition RIGHT_ANKLE :: nat where "RIGHT_ANKLE = 28"

section \<open>Double-precision arithmetic\<close>

text \<open>
  The value of \<open>calculateAngle\<close> is specified, not only the branch it takes, so its
  arithmetic is modelled with the rounding of IEEE 754 binary64. A double is the real number
  it denotes; \<open>fl\<close> rounds a real to the nearest double, ties to the even significand, with
  gradual underflow (the spacing never falls below \<open>2 powi - 1074\<close>). Overflow is not part
  of \<open>fl\<close>: the only operation of \<open>calculateAngle\<close> that can overflow is the subtraction of
  two coordinates, and \<open>minus_double\<close> adds it there. NaN and the sign of zero are not
  modelled: coordinates are finite, and a zero coordinate is \<open>+0\<close>.
\<close>

definition roundEven :: "real \<Rightarrow> int" where
  "roundEven r =
     (let n = \<lfloor>r\<rfloor>; f = r - of_int n
      in if f < 1 / 2 then n else if 1 / 2 < f then n + 1 else if even n then n else n + 1)"

text \<open>The binary exponent of a double's binade, and the spacing of the doubles there.\<close>

definition expo :: "real \<Rightarrow> int" where
  "expo v = (if v = 0 then - 1022 else max \<lfloor>log 2 \<bar>v\<bar>\<rfloor> (- 1022))"

definition ulp :: "real \<Rightarrow> real" where
  "ulp v = 2 powi (expo v - 52)"

definition fl :: "real \<Rightarrow> real" where
  "fl v = of_int (roundEven (v / ulp v)) * ulp v"

text \<open>\<^verbatim>\<open>Math.PI\<close>, the double \<^verbatim>\<open>0x400921FB54442D18\<close>, printed as \<^verbatim>\<open>3.141592653589793\<close>.\<close>

definition Math_PI :: real where
  "Math_PI = 884279719003555 / 281474976710656"

text \<open>The result of a subtraction: a double, or an infinity when the rounded value overflows.\<close>

datatype extended = Finite real | PlusInfinity | MinusInfinity

definition overflow :: "real \<Rightarrow> extended" where
  "overflow r =
     (if 2 ^ 1024 \<le> r then PlusInfinity
      else if r \<le> - (2 ^ 1024) then MinusInfinity
      else Finite r)"

definition minus_double :: "real \<Rightarrow> real \<Rightarrow> extended" where
  "minus_double p q = overflow (fl (p - q))"

text \<open>The reals that are doubles: \<open>fl\<close> leaves them as they are, and they do not overflow.\<close>

definition isDouble :: "real \<Rightarrow> bool" where
  "isDouble v = (fl v = v \<and> \<bar>v\<bar> < 2 ^ 1024)"

text \<open>A landmark whose two image coordinates are doubles.\<close>

definition finiteLandmark :: "NormalizedLandmark \<Rightarrow> bool" where
  "finiteLandmark l = (isDouble (x l) \<and> isDouble (y l))"

section \<open>Geometric primitives\<close>

text \<open>
  The polar angle of the point \<open>(dx, dy)\<close> in \<open>(-\<pi>, \<pi>]\<close>, and \<open>0\<close> at the origin: the value
  that \<^verbatim>\<open>Math.atan2(dy, dx)\<close> approximates for finite arguments.
\<close>

definition atan2 :: "real \<Rightarrow> real \<Rightarrow> real" where
  "atan2 dy dx =
     (if 0 < dx then arctan (dy / dx)
      else if dx < 0 \<and> 0 \<le> dy then arctan (dy / dx) + pi
      else if dx < 0 then arctan (dy / dx) - pi
      else if 0 < dy then pi / 2
      else if dy < 0 then - (pi / 2)
      else 0)"

text \<open>The same with the values that ECMAScript lists for infinite arguments.\<close>

fun atan2_exact :: "extended \<Rightarrow> extended \<Rightarrow> real" where
  "atan2_exact (Finite dy) (Finite dx) = atan2 dy dx"
| "atan2_exact (Finite dy) PlusInfinity = 0"
| "atan2_exact (Finite dy) MinusInfinity = (if 0 \<le> dy then pi else - pi)"
| "atan2_exact PlusInfinity (Finite dx) = pi / 2"
| "atan2_exact PlusInfinity PlusInfinity = pi / 4"
| "atan2_exact PlusInfinity MinusInfinity = 3 * pi / 4"
| "atan2_exact MinusInfinity (Finite dx) = - (pi / 2)"
| "atan2_exact MinusInfinity PlusInfinity = - (pi / 4)"
| "atan2_exact MinusInfinity MinusInfinity = - (3 * pi / 4)"

text \<open>
  \<^verbatim>\<open>Math.atan2\<close>. ECMAScript leaves its result implementation-approximated; it is taken
  here as the double nearest to the exact angle.
\<close>

definition Math_atan2 :: "extended \<Rightarrow> extended \<Rightarrow> real" where
  "Math_atan2 dy dx = fl (atan2_exact dy dx)"

text \<open>
  The coordinates of the three landmarks are doubles in every call of the program; on other
  reals the first rounding is that of the exact difference.
\<close>

definition calculateAngle ::
  "NormalizedLandmark \<Rightarrow> NormalizedLandmark \<Rightarrow> NormalizedLandmark \<Rightarrow> real" where
  "calculateAngle a b c =
     (let radians =
            fl (Math_atan2 (minus_double (y c) (y b)) (minus_double (x c) (x b)) -
                Math_atan2 (minus_double (y a) (y b)) (minus_double (x a) (x b)));
          angle = \<bar>fl (fl (radians * 180) / Math_PI)\<bar>
      in if angle > 180 then fl (360 - angle) else angle)"

text \<open>
  The formula as the specification words it for \<open>angleBetween\<close>, in exact arithmetic: the
  difference of the two polar angles in degrees, its absolute value, and \<open>360\<close> minus that
  when it exceeds \<open>180\<close>.
\<close>

definition angleBetween ::
  "NormalizedLandmark \<Rightarrow> NormalizedLandmark \<Rightarrow> NormalizedLandmark \<Rightarrow> real" where
  "angleBetween a b c =
     (let radians = atan2 (y c - y b) (x c - x b) - atan2 (y a - y b) (x a - x b);
          angle = \<bar>(radians * 180) / pi\<bar>
      in if angle > 180 then 360 - angle else angle)"

definition getVerticalDistance :: "NormalizedLandmark \<Rightarrow> NormalizedLandmark \<Rightarrow> real" where
  "getVerticalDistance a b = \<bar>y a - y b\<bar>"

definition getHorizontalDistance :: "NormalizedLandmark \<Rightarrow> NormalizedLandmark \<Rightarrow> real" where
  "getHorizontalDistance a b = \<bar>x a - x b\<bar>"

section \<open>The visibility gate\<close>

text \<open>
  The callback of \<^verbatim>\<open>every\<close> and \<^verbatim>\<open>filter\<close>:
  \<^verbatim>\<open>landmarks[idx] && landmarks[idx].visibility && landmarks[idx].visibility >= minVisibility\<close>.
  An absent slot is falsy, and so is a visibility of \<open>0\<close>.
\<close>

definition slotVisible :: "LandmarkFrame \<Rightarrow> real \<Rightarrow> nat \<Rightarrow> bool" where
  "slotVisible lms minVisibility idx =
     (case slot lms idx of
        None \<Rightarrow> False
      | Some l \<Rightarrow> visibility l \<noteq> 0 \<and> visibility l \<ge> minVisibility)"

definition criticalIndices :: "nat list" where
  "criticalIndices = [NOSE, LEFT_SHOULDER, RIGHT_SHOULDER, LEFT_HIP, RIGHT_HIP]"

definition optionalIndices :: "nat list" where
  "optionalIndices = [LEFT_ELBOW, RIGHT_ELBOW, LEFT_KNEE, RIGHT_KNEE, LEFT_ANKLE, RIGHT_ANKLE]"

definition areLandmarksVisible :: "LandmarkFrame \<Rightarrow> real \<Rightarrow> bool" where
  "areLandmarksVisible lms minVisibility =
     (let criticalVisible = list_all (slotVisible lms minVisibility) criticalIndices
      in if \<not> criticalVisible then False
         else let optionalVisible =
                    length (filter (slotVisible lms minVisibility) optionalIndices)
              in optionalVisible \<ge> 4)"

text \<open>The default value of the parameter \<^verbatim>\<open>minVisibility\<close>.\<close>

definition defaultMinVisibility :: real where
  "defaultMinVisibility = 0.3"

section \<open>The classifier\<close>

subsection \<open>The no-person outcome\<close>

text \<open>\<^verbatim>\<open>!l || !l.visibility || l.visibility < 0.3\<close>\<close>

definition notSeen :: "NormalizedLandmark option \<Rightarrow> bool" where
  "notSeen l = (case l of None \<Rightarrow> True | Some v \<Rightarrow> visibility v = 0 \<or> visibility v < 0.3)"

text \<open>\<^verbatim>\<open>Array.prototype.join\<close>\<close>

fun join :: "string \<Rightarrow> string list \<Rightarrow> string" where
  "join sep [] = []"
| "join sep [s] = s"
| "join sep (s # t # ts) = s @ sep @ join sep (t # ts)"

definition missingParts :: "LandmarkFrame \<Rightarrow> string list" where
  "missingParts lms =
     (if notSeen (slot lms NOSE) then [''face''] else []) @
     (if notSeen (slot lms LEFT_SHOULDER) \<or> notSeen (slot lms RIGHT_SHOULDER)
      then [''shoulders''] else []) @
     (if notSeen (slot lms LEFT_HIP) \<or> notSeen (slot lms RIGHT_HIP)
      then [''hips''] else [])"

definition feedbackMsg :: "LandmarkFrame \<Rightarrow> string" where
  "feedbackMsg lms =
     (if length (missingParts lms) > 0
      then ''Cannot see: '' @ join '', '' (missingParts lms) @
           ''. Move back to show full body.''
      else ''Cannot see enough body parts. Move back to show full body.'')"

definition noPersonResult :: "LandmarkFrame \<Rightarrow> PlankDetectionResult" where
  "noPersonResult lms =
     \<lparr>isPlank = False, confidence = 0, feedback = [feedbackMsg lms],
      landmarks = Some lms\<rparr>"

subsection \<open>The landmarks the form checks read\<close>

text \<open>
  The classifier binds thirteen slots to local names and then reads \<^verbatim>\<open>.x\<close> or \<^verbatim>\<open>.y\<close>
  of eleven of them (the two wrists are bound and never read). Binding \<^verbatim>\<open>undefined\<close> is
  harmless; reading a coordinate of it throws. Until it returns the function writes only
  its own locals, so all that can be seen of a call that meets an absent slot among the
  eleven is the exception.
\<close>

record KeyLandmarks =
  nose :: NormalizedLandmark
  leftShoulder :: NormalizedLandmark
  rightShoulder :: NormalizedLandmark
  leftElbow :: NormalizedLandmark
  rightElbow :: NormalizedLandmark
  leftHip :: NormalizedLandmark
  rightHip :: NormalizedLandmark
  leftKnee :: NormalizedLandmark
  rightKnee :: NormalizedLandmark
  leftAnkle :: NormalizedLandmark
  rightAnkle :: NormalizedLandmark

definition keyLandmarks :: "LandmarkFrame \<Rightarrow> KeyLandmarks option" where
  "keyLandmarks lms =
     Option.bind (slot lms NOSE) (\<lambda>n.
     Option.bind (slot lms LEFT_SHOULDER) (\<lambda>ls.
     Option.bind (slot lms RIGHT_SHOULDER) (\<lambda>rs.
     Option.bind (slot lms LEFT_ELBOW) (\<lambda>le.
     Option.bind (slot lms RIGHT_ELBOW) (\<lambda>re.
     Option.bind (slot lms LEFT_HIP) (\<lambda>lh.
     Option.bind (slot lms RIGHT_HIP) (\<lambda>rh.
     Option.bind (slot lms LEFT_KNEE) (\<lambda>lk.
     Option.bind (slot lms RIGHT_KNEE) (\<lambda>rk.
     Option.bind (slot lms LEFT_ANKLE) (\<lambda>la.
     Option.bind (slot lms RIGHT_ANKLE) (\<lambda>ra.
       Some \<lparr>nose = n, leftShoulder = ls, rightShoulder = rs, leftElbow = le,
             rightElbow = re, leftHip = lh, rightHip = rh, leftKnee = lk, rightKnee = rk,
             leftAnkle = la, rightAnkle = ra\<rparr>)))))))))))"

definition shoulderY :: "KeyLandmarks \<Rightarrow> real" where
  "shoulderY k = (y (leftShoulder k) + y (rightShoulder k)) / 2"

definition hipY :: "KeyLandmarks \<Rightarrow> real" where
  "hipY k = (y (leftHip k) + y (rightHip k)) / 2"

definition kneeY :: "KeyLandmarks \<Rightarrow> real" where
  "kneeY k = (y (leftKnee k) + y (rightKnee k)) / 2"

definition ankleY :: "KeyLandmarks \<Rightarrow> real" where
  "ankleY k = (y (leftAnkle k) + y (rightAnkle k)) / 2"

subsection \<open>The running score\<close>

text \<open>
  The two locals the checks update, \<^verbatim>\<open>feedback\<close> and \<^verbatim>\<open>confidence\<close>, and a counter
  of the \<^verbatim>\<open>confidence -= n\<close> statements executed, which the program does not keep.
\<close>

record Running =
  run_feedback :: "string list"
  run_confidence :: int
  run_deductions :: nat

text \<open>\<^verbatim>\<open>feedback.push(m)\<close>\<close>

definition push :: "string \<Rightarrow> Running \<Rightarrow> Running" where
  "push m s = s\<lparr>run_feedback := run_feedback s @ [m]\<rparr>"

text \<open>\<^verbatim>\<open>confidence -= n\<close>\<close>

definition deduct :: "int \<Rightarrow> Running \<Rightarrow> Running" where
  "deduct n s = s\<lparr>run_confidence := run_confidence s - n,
                  run_deductions := Suc (run_deductions s)\<rparr>"

definition initial :: Running where
  "initial = \<lparr>run_feedback = [], run_confidence = 100, run_deductions = 0\<rparr>"

subsection \<open>The eight checks, in source order\<close>

definition levelPoint :: "real \<Rightarrow> NormalizedLandmark" where
  "levelPoint v = \<lparr>x = 0, y = v, z = 0, visibility = 1\<rparr>"

definition bodyLevelness :: "KeyLandmarks \<Rightarrow> real" where
  "bodyLevelness k =
     max (getVerticalDistance (levelPoint (shoulderY k)) (levelPoint (hipY k)))
         (getVerticalDistance (levelPoint (hipY k)) (levelPoint (kneeY k)))"

definition checkBodyLevel :: "KeyLandmarks \<Rightarrow> Running \<Rightarrow> Running" where
  "checkBodyLevel k s =
     (if bodyLevelness k > 0.15
      then deduct 30 (push ''Keep your body straight and level'' s)
      else if bodyLevelness k > 0.10
      then deduct 15 (push ''Body alignment could be better'' s)
      else s)"

definition noseShoulderDiff :: "KeyLandmarks \<Rightarrow> real" where
  "noseShoulderDiff k = getVerticalDistance (nose k) (leftShoulder k)"

definition checkHead :: "KeyLandmarks \<Rightarrow> Running \<Rightarrow> Running" where
  "checkHead k s =
     (if noseShoulderDiff k > 0.15
      then deduct 20 (push ''Lift your head - look at the camera'' s)
      else if noseShoulderDiff k > 0.10
      then deduct 10 s
      else s)"

definition leftArmExtended :: "KeyLandmarks \<Rightarrow> bool" where
  "leftArmExtended k = (y (leftElbow k) > y (leftShoulder k) - 0.05)"

definition rightArmExtended :: "KeyLandmarks \<Rightarrow> bool" where
  "rightArmExtended k = (y (rightElbow k) > y (rightShoulder k) - 0.05)"

definition checkArms :: "KeyLandmarks \<Rightarrow> Running \<Rightarrow> Running" where
  "checkArms k s =
     (if \<not> leftArmExtended k \<or> \<not> rightArmExtended k
      then deduct 25 (push ''Extend your arms toward the camera'' s)
      else s)"

definition elbowLevelness :: "KeyLandmarks \<Rightarrow> real" where
  "elbowLevelness k = getVerticalDistance (leftElbow k) (rightElbow k)"

definition checkElbows :: "KeyLandmarks \<Rightarrow> Running \<Rightarrow> Running" where
  "checkElbows k s =
     (if elbowLevelness k > 0.1
      then deduct 15 (push ''Keep elbows level'' s)
      else s)"

definition shoulderWidth :: "KeyLandmarks \<Rightarrow> real" where
  "shoulderWidth k = getHorizontalDistance (leftShoulder k) (rightShoulder k)"

definition checkShoulderWidth :: "KeyLandmarks \<Rightarrow> Running \<Rightarrow> Running" where
  "checkShoulderWidth k s =
     (if shoulderWidth k < 0.15
      then deduct 20 (push ''Position camera to see both shoulders'' s)
      else s)"

definition legStraightness :: "KeyLandmarks \<Rightarrow> real" where
  "legStraightness k = \<bar>kneeY k - hipY k\<bar> + \<bar>kneeY k - ankleY k\<bar>"

definition checkLegs :: "KeyLandmarks \<Rightarrow> Running \<Rightarrow> Running" where
  "checkLegs k s =
     (if legStraightness k > 0.15
      then deduct 25 (push ''Straighten your legs'' s)
      else if legStraightness k > 0.10
      then deduct 10 s
      else s)"

definition avgBodyY :: "KeyLandmarks \<Rightarrow> real" where
  "avgBodyY k = (shoulderY k + hipY k + kneeY k) / 3"

definition checkFramePosition :: "KeyLandmarks \<Rightarrow> Running \<Rightarrow> Running" where
  "checkFramePosition k s =
     (if avgBodyY k < 0.3
      then deduct 15 (push ''Move camera higher or position yourself lower in frame'' s)
      else if avgBodyY k > 0.8
      then deduct 15 (push ''Move camera lower or position yourself higher in frame'' s)
      else s)"

definition leftRightSymmetry :: "KeyLandmarks \<Rightarrow> real" where
  "leftRightSymmetry k =
     \<bar>y (leftShoulder k) - y (rightShoulder k)\<bar> +
     \<bar>y (leftHip k) - y (rightHip k)\<bar> +
     \<bar>y (leftKnee k) - y (rightKnee k)\<bar>"

definition checkSymmetry :: "KeyLandmarks \<Rightarrow> Running \<Rightarrow> Running" where
  "checkSymmetry k s =
     (if leftRightSymmetry k > 0.15
      then deduct 15 (push ''Balance your weight evenly on both sides'' s)
      else s)"

definition runChecks :: "KeyLandmarks \<Rightarrow> Running" where
  "runChecks k =
     checkSymmetry k (checkFramePosition k (checkLegs k (checkShoulderWidth k
       (checkElbows k (checkArms k (checkHead k (checkBodyLevel k initial)))))))"


subsection \<open>Verdict and result\<close>

text \<open>The last four bytes of the first string are the UTF-8 encoding of U+1F4AA.\<close>

definition perfectMsg :: string where
  "perfectMsg = ''Perfect plank form! '' @ [CHR 0xF0, CHR 0x9F, CHR 0x92, CHR 0xAA]"

definition goodMsg :: string where
  "goodMsg = ''Good plank position - keep it up!''"

definition detectedMsg :: string where
  "detectedMsg = ''Plank detected - maintain form''"

definition verdict :: "Running \<Rightarrow> bool" where
  "verdict s = (run_confidence s \<ge> 55 \<and> length (run_feedback s) \<le> 3)"

definition withAffirmation :: "Running \<Rightarrow> string list" where
  "withAffirmation s =
     (if verdict s \<and> run_confidence s \<ge> 85 then perfectMsg # run_feedback s
      else if verdict s \<and> run_confidence s \<ge> 70 then goodMsg # run_feedback s
      else if verdict s then detectedMsg # run_feedback s
      else run_feedback s)"

definition classified :: "LandmarkFrame \<Rightarrow> Running \<Rightarrow> PlankDetectionResult" where
  "classified lms s =
     \<lparr>isPlank = verdict s, confidence = max 0 (run_confidence s),
      feedback = withAffirmation s, landmarks = Some lms\<rparr>"

definition detectPlankPosition :: "LandmarkFrame \<Rightarrow> js_error + PlankDetectionResult" where
  "detectPlankPosition lms =
     (if \<not> areLandmarksVisible lms defaultMinVisibility then Inr (noPersonResult lms)
      else case keyLandmarks lms of
             None \<Rightarrow> Inl TypeError
           | Some k \<Rightarrow> Inr (classified lms (runChecks k)))"

section \<open>\<^verbatim>\<open>calculatePoseAngles\<close>\<close>





section \<open>The side-view classifier\<close>
























section \<open>The stability gate of \<^verbatim>\<open>usePoseDetection\<close>\<close>

text \<open>
  The hook keeps two counters and a flag in refs, and the last result and error in React
  state. \<open>detectPose\<close> below is the body of the hook's \<^verbatim>\<open>detectPose\<close> for a frame that
  got past the readiness guard and the 66 ms throttle; its argument is
  \<^verbatim>\<open>result.landmarks\<close>, the list of detected persons. The two callbacks are the events
  returned. An exception of the classifier is caught by the \<^verbatim>\<open>try\<close> block, which sets
  the error text and leaves the counters alone.
\<close>

datatype GateEvent = PlankDetected | PlankLost

record Options =
  stabilityFrames :: int
  gracePeriodFrames :: int

text \<open>The defaults of the hook's destructured parameter.\<close>

definition defaultOptions :: Options where
  "defaultOptions = \<lparr>stabilityFrames = 5, gracePeriodFrames = 10\<rparr>"

text \<open>The options the video recorder component passes.\<close>

definition recorderOptions :: Options where
  "recorderOptions = \<lparr>stabilityFrames = 5, gracePeriodFrames = 30\<rparr>"

record HookState =
  plankDetectedCount :: int
  plankLostCount :: int
  isPlankActive :: bool
  detectionResult :: "PlankDetectionResult option"
  error :: "string option"

definition initialState :: HookState where
  "initialState = \<lparr>plankDetectedCount = 0, plankLostCount = 0, isPlankActive = False,
     detectionResult = None, error = None\<rparr>"

definition noPersonDetected :: PlankDetectionResult where
  "noPersonDetected = \<lparr>isPlank = False, confidence = 0,
     feedback = [''No person detected. Position yourself in frame.''], landmarks = None\<rparr>"

text \<open>The branch \<^verbatim>\<open>if (plankResult.isPlank) { ... }\<close>.\<close>

definition countPass :: "Options \<Rightarrow> HookState \<Rightarrow> HookState \<times> GateEvent list" where
  "countPass opts st =
     (let st1 = st\<lparr>plankDetectedCount := plankDetectedCount st + 1, plankLostCount := 0\<rparr>
      in if \<not> isPlankActive st1 \<and> plankDetectedCount st1 \<ge> stabilityFrames opts
         then (st1\<lparr>isPlankActive := True\<rparr>, [PlankDetected])
         else (st1, []))"

text \<open>
  The statements after \<^verbatim>\<open>setDetectionResult\<close> in the branch of a failing classification
  and in the branch of an empty estimator result; the source writes them out twice.
\<close>

definition countFail :: "Options \<Rightarrow> HookState \<Rightarrow> HookState \<times> GateEvent list" where
  "countFail opts st =
     (let st1 = st\<lparr>plankLostCount := plankLostCount st + 1, plankDetectedCount := 0\<rparr>
      in if isPlankActive st1 \<and> plankLostCount st1 \<ge> gracePeriodFrames opts
         then (st1\<lparr>isPlankActive := False\<rparr>, [PlankLost])
         else (st1, []))"

definition detectPose ::
  "Options \<Rightarrow> HookState \<Rightarrow> LandmarkFrame list \<Rightarrow> HookState \<times> GateEvent list" where
  "detectPose opts st result =
     (case result of
        lms # _ \<Rightarrow>
          (case detectPlankPosition lms of
             Inl e \<Rightarrow> (st\<lparr>error := Some ''Detection error occurred''\<rparr>, [])
           | Inr plankResult \<Rightarrow>
               (let st0 = st\<lparr>detectionResult := Some plankResult\<rparr>
                in if isPlank plankResult then countPass opts st0 else countFail opts st0))
      | [] \<Rightarrow> countFail opts (st\<lparr>detectionResult := Some noPersonDetected\<rparr>))"

definition reset :: "HookState \<Rightarrow> HookState" where
  "reset st = st\<lparr>plankDetectedCount := 0, plankLostCount := 0, isPlankActive := False,
     detectionResult := None, error := None\<rparr>"

text \<open>
  A run of the hook over a sequence of sampled frames: the final state and, frame by
  frame, the events fired.
\<close>

fun feed ::
  "Options \<Rightarrow> HookState \<Rightarrow> LandmarkFrame list list \<Rightarrow> HookState \<times> GateEvent list list" where
  "feed opts st [] = (st, [])"
| "feed opts st (f # fs) =
     (case detectPose opts st f of
        (st', ev) \<Rightarrow> (case feed opts st' fs of (st'', evs) \<Rightarrow> (st'', ev # evs)))"

text \<open>
  A sampled frame is a passing classification when a person was found and classified as a
  plank; it is a failing one when nobody was found or the person was classified as not in
  a plank.
\<close>

definition passes :: "LandmarkFrame list \<Rightarrow> bool" where
  "passes result =
     (case result of
        [] \<Rightarrow> False
      | lms # _ \<Rightarrow> (case detectPlankPosition lms of Inl e \<Rightarrow> False | Inr r \<Rightarrow> isPlank r))"

definition fails :: "LandmarkFrame list \<Rightarrow> bool" where
  "fails result =
     (case result of
        [] \<Rightarrow> True
      | lms # _ \<Rightarrow> (case detectPlankPosition lms of Inl e \<Rightarrow> False | Inr r \<Rightarrow> \<not> isPlank r))"

section \<open>Concrete frames\<close>

definition lm :: "real \<Rightarrow> real \<Rightarrow> NormalizedLandmark option" where
  "lm a b = Some \<lparr>x = a, y = b, z = 0, visibility = 0.9\<rparr>"

text \<open>
  A level, centred, symmetric front-facing plank. Upper arm and forearm meet at 135
  degrees at each elbow.
\<close>

definition goodPose :: "nat \<Rightarrow> NormalizedLandmark option" where
  "goodPose i =
     (if i = NOSE then lm 0.5 0.45
      else if i = LEFT_SHOULDER then lm 0.4 0.5
      else if i = RIGHT_SHOULDER then lm 0.6 0.5
      else if i = LEFT_ELBOW then lm 0.4 0.6
      else if i = RIGHT_ELBOW then lm 0.6 0.6
      else if i = LEFT_WRIST then lm 0.45 0.65
      else if i = RIGHT_WRIST then lm 0.65 0.65
      else if i = LEFT_HIP then lm 0.45 0.52
      else if i = RIGHT_HIP then lm 0.55 0.52
      else if i = LEFT_KNEE then lm 0.45 0.54
      else if i = RIGHT_KNEE then lm 0.55 0.54
      else if i = LEFT_ANKLE then lm 0.45 0.55
      else if i = RIGHT_ANKLE then lm 0.55 0.55
      else lm 0.5 0.5)"

definition goodFrame :: LandmarkFrame where
  "goodFrame = map goodPose [0..<33]"

definition goodKey :: KeyLandmarks where
  "goodKey =
     \<lparr>nose = \<lparr>x = 0.5, y = 0.45, z = 0, visibility = 0.9\<rparr>,
      leftShoulder = \<lparr>x = 0.4, y = 0.5, z = 0, visibility = 0.9\<rparr>,
      rightShoulder = \<lparr>x = 0.6, y = 0.5, z = 0, visibility = 0.9\<rparr>,
      leftElbow = \<lparr>x = 0.4, y = 0.6, z = 0, visibility = 0.9\<rparr>,
      rightElbow = \<lparr>x = 0.6, y = 0.6, z = 0, visibility = 0.9\<rparr>,
      leftHip = \<lparr>x = 0.45, y = 0.52, z = 0, visibility = 0.9\<rparr>,
      rightHip = \<lparr>x = 0.55, y = 0.52, z = 0, visibility = 0.9\<rparr>,
      leftKnee = \<lparr>x = 0.45, y = 0.54, z = 0, visibility = 0.9\<rparr>,
      rightKnee = \<lparr>x = 0.55, y = 0.54, z = 0, visibility = 0.9\<rparr>,
      leftAnkle = \<lparr>x = 0.45, y = 0.55, z = 0, visibility = 0.9\<rparr>,
      rightAnkle = \<lparr>x = 0.55, y = 0.55, z = 0, visibility = 0.9\<rparr>\<rparr>"

definition goodResult :: PlankDetectionResult where
  "goodResult = \<lparr>isPlank = True, confidence = 100, feedback = [perfectMsg],
     landmarks = Some goodFrame\<rparr>"

text \<open>The same pose in an array of 28 entries: slots 0 to 27, the right ankle missing.\<close>

definition shortFrame :: LandmarkFrame where
  "shortFrame = map goodPose [0..<28]"




text \<open>A pose that violates all eight checks.\<close>

definition badPose :: "nat \<Rightarrow> NormalizedLandmark option" where
  "badPose i =
     (if i = NOSE then lm 0.5 0.05
      else if i = LEFT_SHOULDER then lm 0.5 0.3
      else if i = RIGHT_SHOULDER then lm 0.55 0.5
      else if i = LEFT_ELBOW then lm 0.5 0.2
      else if i = RIGHT_ELBOW then lm 0.55 0.6
      else if i = LEFT_HIP then lm 0.5 0.1
      else if i = RIGHT_HIP then lm 0.5 0.1
      else if i = LEFT_KNEE then lm 0.5 0.3
      else if i = RIGHT_KNEE then lm 0.5 0.3
      else if i = LEFT_ANKLE then lm 0.5 0.9
      else if i = RIGHT_ANKLE then lm 0.5 0.9
      else lm 0.5 0.5)"

definition badFrame :: LandmarkFrame where
  "badFrame = map badPose [0..<33]"

definition badKey :: KeyLandmarks where
  "badKey =
     \<lparr>nose = \<lparr>x = 0.5, y = 0.05, z = 0, visibility = 0.9\<rparr>,
      leftShoulder = \<lparr>x = 0.5, y = 0.3, z = 0, visibility = 0.9\<rparr>,
      rightShoulder = \<lparr>x = 0.55, y = 0.5, z = 0, visibility = 0.9\<rparr>,
      leftElbow = \<lparr>x = 0.5, y = 0.2, z = 0, visibility = 0.9\<rparr>,
      rightElbow = \<lparr>x = 0.55, y = 0.6, z = 0, visibility = 0.9\<rparr>,
      leftHip = \<lparr>x = 0.5, y = 0.1, z = 0, visibility = 0.9\<rparr>,
      rightHip = \<lparr>x = 0.5, y = 0.1, z = 0, visibility = 0.9\<rparr>,
      leftKnee = \<lparr>x = 0.5, y = 0.3, z = 0, visibility = 0.9\<rparr>,
      rightKnee = \<lparr>x = 0.5, y = 0.3, z = 0, visibility = 0.9\<rparr>,
      leftAnkle = \<lparr>x = 0.5, y = 0.9, z = 0, visibility = 0.9\<rparr>,
      rightAnkle = \<lparr>x = 0.5, y = 0.9, z = 0, visibility = 0.9\<rparr>\<rparr>"

definition badResult :: PlankDetectionResult where
  "badResult =
     \<lparr>isPlank = False, confidence = 0,
      feedback =
        [''Keep your body straight and level'',
         ''Lift your head - look at the camera'',
         ''Extend your arms toward the camera'',
         ''Keep elbows level'',
         ''Position camera to see both shoulders'',
         ''Straighten your legs'',
         ''Move camera higher or position yourself lower in frame'',
         ''Balance your weight evenly on both sides''],
      landmarks = Some badFrame\<rparr>"

text \<open>The gate state right after acquisition under the default stability threshold.\<close>

definition activeState :: HookState where
  "activeState = \<lparr>plankDetectedCount = 5, plankLostCount = 0, isPlankActive = True,
     detectionResult = Some goodResult, error = None\<rparr>"











text \<open>The three points of the plane \<open>(0, 0)\<close>, \<open>(5, 1)\<close> and \<open>(10, 2)\<close>, which lie on one line.\<close>

definition point :: "real \<Rightarrow> real \<Rightarrow> NormalizedLandmark" where
  "point px py = \<lparr>x = px, y = py, z = 0, visibility = 1\<rparr>"

section \<open>Evaluating the classifier on the concrete frames\<close>

lemmas POSE_LANDMARKS_defs =
  NOSE_def LEFT_SHOULDER_def RIGHT_SHOULDER_def LEFT_ELBOW_def RIGHT_ELBOW_def
  LEFT_WRIST_def RIGHT_WRIST_def LEFT_HIP_def RIGHT_HIP_def LEFT_KNEE_def RIGHT_KNEE_def
  LEFT_ANKLE_def RIGHT_ANKLE_def

lemma slot_map_upt: "slot (map f [0..<n]) i = (if i < n then f i else None)"
  by (simp add: slot_def)

lemmas gate_defs =
  areLandmarksVisible_def slotVisible_def criticalIndices_def optionalIndices_def
  defaultMinVisibility_def slot_map_upt POSE_LANDMARKS_defs lm_def

lemmas check_defs =
  runChecks_def initial_def checkBodyLevel_def checkHead_def checkArms_def checkElbows_def
  checkShoulderWidth_def checkLegs_def checkFramePosition_def checkSymmetry_def
  bodyLevelness_def noseShoulderDiff_def leftArmExtended_def rightArmExtended_def
  elbowLevelness_def shoulderWidth_def legStraightness_def avgBodyY_def leftRightSymmetry_def
  shoulderY_def hipY_def kneeY_def ankleY_def levelPoint_def getVerticalDistance_def
  getHorizontalDistance_def push_def deduct_def

lemmas result_defs = classified_def verdict_def withAffirmation_def

lemma gate_good: "areLandmarksVisible goodFrame defaultMinVisibility"
  by (simp add: gate_defs goodFrame_def goodPose_def)

lemma key_good: "keyLandmarks goodFrame = Some goodKey"
  by (simp add: keyLandmarks_def goodFrame_def slot_map_upt POSE_LANDMARKS_defs goodPose_def
      lm_def goodKey_def)

lemma run_good: "runChecks goodKey = initial"
  by (simp add: check_defs goodKey_def)

lemma detect_good: "detectPlankPosition goodFrame = Inr goodResult"
  by (simp add: detectPlankPosition_def gate_good key_good run_good result_defs initial_def
      goodResult_def)

lemma gate_short: "areLandmarksVisible shortFrame defaultMinVisibility"
  by (simp add: gate_defs shortFrame_def goodPose_def)

lemma key_short: "keyLandmarks shortFrame = None"
  by (simp add: keyLandmarks_def shortFrame_def slot_map_upt POSE_LANDMARKS_defs goodPose_def
      lm_def)




lemma gate_bad: "areLandmarksVisible badFrame defaultMinVisibility"
  by (simp add: gate_defs badFrame_def badPose_def)

lemma key_bad: "keyLandmarks badFrame = Some badKey"
  by (simp add: keyLandmarks_def badFrame_def slot_map_upt POSE_LANDMARKS_defs badPose_def
      lm_def badKey_def)

lemma run_bad:
  "runChecks badKey =
     \<lparr>run_feedback = feedback badResult, run_confidence = - 65, run_deductions = 8\<rparr>"
  by (simp add: check_defs badKey_def badResult_def)

lemma detect_bad: "detectPlankPosition badFrame = Inr badResult"
  by (simp add: detectPlankPosition_def gate_bad key_bad run_bad result_defs badResult_def)

lemma gate_empty: "\<not> areLandmarksVisible [] defaultMinVisibility"
  by (simp add: areLandmarksVisible_def slotVisible_def criticalIndices_def slot_def)

section \<open>Shape of the classifier's result\<close>

lemma detect_gated:
  assumes "areLandmarksVisible lms defaultMinVisibility"
    and "detectPlankPosition lms = Inr r"
  shows "\<exists>k. keyLandmarks lms = Some k \<and> r = classified lms (runChecks k)"
  using assms by (auto simp: detectPlankPosition_def split: option.splits)

lemma detect_throws:
  "detectPlankPosition lms = Inl e \<longleftrightarrow>
     areLandmarksVisible lms defaultMinVisibility \<and> keyLandmarks lms = None"
  by (cases e) (auto simp: detectPlankPosition_def split: option.splits)

text \<open>
  Claim C5 says that \<open>detectPlankPosition\<close> returns a result for every landmark array and
  that every slot the form checks read is present once the gate has passed. The gate asks
  for four visible slots out of the six optional ones, and the checks then read all six.
  On the 28-entry array \<open>shortFrame\<close> the gate passes with five visible optional slots,
  the right ankle slot is \<^verbatim>\<open>undefined\<close>, and \<^verbatim>\<open>leftAnkle.y + rightAnkle.y\<close> throws.
\<close>

theorem short_frame_throws:
  "length shortFrame = 28 \<and>
   slot shortFrame RIGHT_ANKLE = None \<and>
   length (filter (slotVisible shortFrame defaultMinVisibility) optionalIndices) = 5 \<and>
   areLandmarksVisible shortFrame defaultMinVisibility \<and>
   detectPlankPosition shortFrame = Inl TypeError"
proof -
  have "length shortFrame = 28" "slot shortFrame RIGHT_ANKLE = None"
    by (simp_all add: shortFrame_def slot_map_upt RIGHT_ANKLE_def)
  moreover have
    "length (filter (slotVisible shortFrame defaultMinVisibility) optionalIndices) = 5"
    by (simp add: gate_defs shortFrame_def goodPose_def)
  moreover have "detectPlankPosition shortFrame = Inl TypeError"
    by (simp add: detectPlankPosition_def gate_short key_short)
  ultimately show ?thesis using gate_short by simp
qed

text \<open>
  Claim C1: for a frame that passes the gate, \<open>isPlank\<close> holds exactly when the final
  confidence is at least 55 and the checks pushed at most 3 messages, the messages being
  counted before the affirmation is put in front. So \<open>isPlank\<close> is false when the
  confidence is below 55, and false when more than 3 messages were pushed. The feedback of
  the result is the pushed messages, with one of the three affirmations in front exactly
  when \<open>isPlank\<close> holds.
\<close>

theorem verdict_rule:
  assumes "areLandmarksVisible lms defaultMinVisibility"
    and "detectPlankPosition lms = Inr r"
  shows "\<exists>k. keyLandmarks lms = Some k \<and>
           isPlank r = (55 \<le> confidence r \<and> length (run_feedback (runChecks k)) \<le> 3) \<and>
           (confidence r < 55 \<longrightarrow> \<not> isPlank r) \<and>
           (3 < length (run_feedback (runChecks k)) \<longrightarrow> \<not> isPlank r) \<and>
           (if isPlank r
            then \<exists>a. a \<in> {perfectMsg, goodMsg, detectedMsg} \<and>
                     feedback r = a # run_feedback (runChecks k)
            else feedback r = run_feedback (runChecks k))"
proof -
  from detect_gated[OF assms] obtain k where
    k: "keyLandmarks lms = Some k" and r: "r = classified lms (runChecks k)" by blast
  have "isPlank r = (55 \<le> confidence r \<and> length (run_feedback (runChecks k)) \<le> 3)"
    by (auto simp: r result_defs)
  moreover have "if isPlank r
      then \<exists>a. a \<in> {perfectMsg, goodMsg, detectedMsg} \<and>
               feedback r = a # run_feedback (runChecks k)
      else feedback r = run_feedback (runChecks k)"
    by (simp add: r result_defs)
  ultimately show ?thesis using k by auto
qed

text \<open>Claim C1 on the level plank frame.\<close>

theorem verdict_rule_witness:
  "areLandmarksVisible goodFrame defaultMinVisibility \<and>
   detectPlankPosition goodFrame = Inr goodResult \<and>
   (\<exists>k. keyLandmarks goodFrame = Some k \<and>
      isPlank goodResult =
        (55 \<le> confidence goodResult \<and> length (run_feedback (runChecks k)) \<le> 3) \<and>
      (\<exists>a. a \<in> {perfectMsg, goodMsg, detectedMsg} \<and>
           feedback goodResult = a # run_feedback (runChecks k)))"
  using verdict_rule[OF gate_good detect_good] gate_good detect_good
  by (auto simp: goodResult_def)

section \<open>Bounds of the running confidence\<close>

lemma checkBodyLevel_confidence:
  "run_confidence s - 30 \<le> run_confidence (checkBodyLevel k s) \<and>
   run_confidence (checkBodyLevel k s) \<le> run_confidence s"
  by (simp add: checkBodyLevel_def push_def deduct_def)

lemma checkHead_confidence:
  "run_confidence s - 20 \<le> run_confidence (checkHead k s) \<and>
   run_confidence (checkHead k s) \<le> run_confidence s"
  by (simp add: checkHead_def push_def deduct_def)

lemma checkArms_confidence:
  "run_confidence s - 25 \<le> run_confidence (checkArms k s) \<and>
   run_confidence (checkArms k s) \<le> run_confidence s"
  by (simp add: checkArms_def push_def deduct_def)

lemma checkElbows_confidence:
  "run_confidence s - 15 \<le> run_confidence (checkElbows k s) \<and>
   run_confidence (checkElbows k s) \<le> run_confidence s"
  by (simp add: checkElbows_def push_def deduct_def)

lemma checkShoulderWidth_confidence:
  "run_confidence s - 20 \<le> run_confidence (checkShoulderWidth k s) \<and>
   run_confidence (checkShoulderWidth k s) \<le> run_confidence s"
  by (simp add: checkShoulderWidth_def push_def deduct_def)

lemma checkLegs_confidence:
  "run_confidence s - 25 \<le> run_confidence (checkLegs k s) \<and>
   run_confidence (checkLegs k s) \<le> run_confidence s"
  by (simp add: checkLegs_def push_def deduct_def)

lemma checkFramePosition_confidence:
  "run_confidence s - 15 \<le> run_confidence (checkFramePosition k s) \<and>
   run_confidence (checkFramePosition k s) \<le> run_confidence s"
  by (simp add: checkFramePosition_def push_def deduct_def)

lemma checkSymmetry_confidence:
  "run_confidence s - 15 \<le> run_confidence (checkSymmetry k s) \<and>
   run_confidence (checkSymmetry k s) \<le> run_confidence s"
  by (simp add: checkSymmetry_def push_def deduct_def)

lemma runChecks_confidence:
  "- 65 \<le> run_confidence (runChecks k) \<and> run_confidence (runChecks k) \<le> 100"
proof -
  define s1 where "s1 = checkBodyLevel k initial"
  define s2 where "s2 = checkHead k s1"
  define s3 where "s3 = checkArms k s2"
  define s4 where "s4 = checkElbows k s3"
  define s5 where "s5 = checkShoulderWidth k s4"
  define s6 where "s6 = checkLegs k s5"
  define s7 where "s7 = checkFramePosition k s6"
  have r: "runChecks k = checkSymmetry k s7"
    by (simp add: runChecks_def s1_def s2_def s3_def s4_def s5_def s6_def s7_def)
  have i: "run_confidence initial = 100" by (simp add: initial_def)
  note b =
    checkBodyLevel_confidence[of initial k, folded s1_def]
    checkHead_confidence[of s1 k, folded s2_def]
    checkArms_confidence[of s2 k, folded s3_def]
    checkElbows_confidence[of s3 k, folded s4_def]
    checkShoulderWidth_confidence[of s4 k, folded s5_def]
    checkLegs_confidence[of s5 k, folded s6_def]
    checkFramePosition_confidence[of s6 k, folded s7_def]
    checkSymmetry_confidence[of s7 k]
  show ?thesis unfolding r using b i by linarith
qed

text \<open>
  Claim C6: for a frame that passes the gate, the confidence of the result lies between 0
  and 100. The running value starts at 100 and only goes down, by at most 165 in total, and
  the result carries its maximum with 0.
\<close>

theorem confidence_bounds:
  assumes "areLandmarksVisible lms defaultMinVisibility"
    and "detectPlankPosition lms = Inr r"
  shows "0 \<le> confidence r \<and> confidence r \<le> 100 \<and>
         (\<exists>k. keyLandmarks lms = Some k \<and>
              confidence r = max 0 (run_confidence (runChecks k)) \<and>
              - 65 \<le> run_confidence (runChecks k) \<and> run_confidence (runChecks k) \<le> 100)"
proof -
  from detect_gated[OF assms] obtain k where
    k: "keyLandmarks lms = Some k" and r: "r = classified lms (runChecks k)" by blast
  have c: "confidence r = max 0 (run_confidence (runChecks k))"
    by (simp add: r classified_def)
  show ?thesis using k c runChecks_confidence[of k] by auto
qed

text \<open>
  Claim C6 on the frame that violates every check: the running value ends at \<open>-65\<close>, the
  result carries 0.
\<close>

theorem confidence_bounds_witness:
  "areLandmarksVisible badFrame defaultMinVisibility \<and>
   detectPlankPosition badFrame = Inr badResult \<and>
   run_confidence (runChecks badKey) = - 65 \<and>
   confidence badResult = 0 \<and>
   0 \<le> confidence badResult \<and> confidence badResult \<le> 100 \<and>
   (\<exists>k. keyLandmarks badFrame = Some k \<and>
        confidence badResult = max 0 (run_confidence (runChecks k)) \<and>
        - 65 \<le> run_confidence (runChecks k) \<and> run_confidence (runChecks k) \<le> 100)"
  using confidence_bounds[OF gate_bad detect_bad] gate_bad detect_bad
  by (simp add: run_bad) (simp add: badResult_def)

text \<open>
  Claim C10: whenever \<open>detectPlankPosition\<close> returns a result, on the no-person path or
  after the checks, its \<open>landmarks\<close> field is the array it was given.
\<close>

theorem landmarks_returned:
  "detectPlankPosition lms = Inr r \<Longrightarrow> landmarks r = Some lms"
  by (auto simp: detectPlankPosition_def noPersonResult_def classified_def
      split: if_splits option.splits)

text \<open>Claim C10 on a frame that is classified and on the empty array.\<close>

theorem landmarks_returned_witness:
  "detectPlankPosition goodFrame = Inr goodResult \<and> landmarks goodResult = Some goodFrame \<and>
   detectPlankPosition [] = Inr (noPersonResult []) \<and> landmarks (noPersonResult []) = Some []"
  using landmarks_returned[OF detect_good]
    landmarks_returned[of "[]" "noPersonResult []"] detect_good gate_empty
  by (simp add: detectPlankPosition_def)

section \<open>The messages of the two paths\<close>

lemma feedbackMsg_shape:
  "\<exists>body. feedbackMsg lms = ''Cannot see'' @ body @ ''Move back to show full body.''"
proof (cases "length (missingParts lms) > 0")
  case True
  then have "feedbackMsg lms =
      ''Cannot see'' @ ('': '' @ join '', '' (missingParts lms) @ ''. '') @
      ''Move back to show full body.''"
    by (simp add: feedbackMsg_def)
  then show ?thesis by blast
next
  case False
  then have "feedbackMsg lms =
      ''Cannot see'' @ '' enough body parts. '' @ ''Move back to show full body.''"
    by (simp add: feedbackMsg_def)
  then show ?thesis by blast
qed

lemma feedbackMsg_hd: "hd (feedbackMsg lms) = CHR ''C''"
  by (simp add: feedbackMsg_def)

lemma checks_keep_hd:
  assumes "\<forall>m\<in>set (run_feedback s). hd m \<noteq> CHR ''C''"
  shows "\<forall>m\<in>set (run_feedback (checkBodyLevel k s)). hd m \<noteq> CHR ''C''"
    and "\<forall>m\<in>set (run_feedback (checkHead k s)). hd m \<noteq> CHR ''C''"
    and "\<forall>m\<in>set (run_feedback (checkArms k s)). hd m \<noteq> CHR ''C''"
    and "\<forall>m\<in>set (run_feedback (checkElbows k s)). hd m \<noteq> CHR ''C''"
    and "\<forall>m\<in>set (run_feedback (checkShoulderWidth k s)). hd m \<noteq> CHR ''C''"
    and "\<forall>m\<in>set (run_feedback (checkLegs k s)). hd m \<noteq> CHR ''C''"
    and "\<forall>m\<in>set (run_feedback (checkFramePosition k s)). hd m \<noteq> CHR ''C''"
    and "\<forall>m\<in>set (run_feedback (checkSymmetry k s)). hd m \<noteq> CHR ''C''"
  using assms
  by (simp_all add: checkBodyLevel_def checkHead_def checkArms_def checkElbows_def
      checkShoulderWidth_def checkLegs_def checkFramePosition_def checkSymmetry_def
      push_def deduct_def)

lemma runChecks_hd: "\<forall>m\<in>set (run_feedback (runChecks k)). hd m \<noteq> CHR ''C''"
  unfolding runChecks_def
  by (intro checks_keep_hd) (simp add: initial_def)

lemma withAffirmation_hd: "\<forall>m\<in>set (withAffirmation (runChecks k)). hd m \<noteq> CHR ''C''"
  using runChecks_hd[of k]
  by (simp add: withAffirmation_def perfectMsg_def goodMsg_def detectedMsg_def)

text \<open>
  Claim C4: when the gate fails, the classifier returns without reading any further slot:
  \<open>isPlank\<close> is false, the confidence is 0, and the feedback is one message. That message
  begins with \<^verbatim>\<open>Cannot see\<close> and ends with \<^verbatim>\<open>Move back to show full body.\<close>, and it
  is none of the messages that the checks or the affirmation can put into a result.
\<close>

theorem no_person_outcome:
  assumes "\<not> areLandmarksVisible lms defaultMinVisibility"
  shows "\<exists>msg body.
           detectPlankPosition lms =
             Inr \<lparr>isPlank = False, confidence = 0, feedback = [msg], landmarks = Some lms\<rparr> \<and>
           msg = ''Cannot see'' @ body @ ''Move back to show full body.'' \<and>
           (\<forall>k. msg \<notin> set (withAffirmation (runChecks k)))"
proof -
  obtain body where
    b: "feedbackMsg lms = ''Cannot see'' @ body @ ''Move back to show full body.''"
    using feedbackMsg_shape by blast
  have d: "detectPlankPosition lms =
      Inr \<lparr>isPlank = False, confidence = 0, feedback = [feedbackMsg lms],
           landmarks = Some lms\<rparr>"
    using assms by (simp add: detectPlankPosition_def noPersonResult_def)
  have "\<forall>k. feedbackMsg lms \<notin> set (withAffirmation (runChecks k))"
    using withAffirmation_hd feedbackMsg_hd by blast
  with b d show ?thesis by blast
qed

text \<open>Claim C4 on the empty array.\<close>

theorem no_person_outcome_witness:
  "\<not> areLandmarksVisible [] defaultMinVisibility \<and>
   (\<exists>msg body.
      detectPlankPosition [] =
        Inr \<lparr>isPlank = False, confidence = 0, feedback = [msg], landmarks = Some []\<rparr> \<and>
      msg = ''Cannot see'' @ body @ ''Move back to show full body.'' \<and>
      (\<forall>k. msg \<notin> set (withAffirmation (runChecks k))))"
  using no_person_outcome[OF gate_empty] gate_empty by simp

section \<open>Deductions and messages\<close>









section \<open>Rounding to the nearest double\<close>

text \<open>
  \<open>roundEven\<close> picks the integer nearest to its argument, \<open>expo\<close> is characterised by the
  binade of its argument, and \<open>fl\<close> is odd and monotone. The two introduction rules
  \<open>fl_eqI\<close> and \<open>fl_eq_ratI\<close> reduce the rounding of a given real to two comparisons of
  rationals.
\<close>

lemma roundEven_eqI: "\<bar>r - of_int k\<bar> < 1 / 2 \<Longrightarrow> roundEven r = k"
proof -
  assume a: "\<bar>r - of_int k\<bar> < 1 / 2"
  show ?thesis
  proof (cases "of_int k \<le> r")
    case True
    then have "\<lfloor>r\<rfloor> = k" using a by (intro floor_unique) auto
    then show ?thesis using a True by (simp add: roundEven_def Let_def)
  next
    case False
    then have f: "\<lfloor>r\<rfloor> = k - 1" using a by (intro floor_unique) auto
    have "1 / 2 < r - of_int (k - 1)" using a False by auto
    then show ?thesis using f by (simp add: roundEven_def Let_def)
  qed
qed

lemma roundEven_of_int [simp]: "roundEven (of_int k) = k"
  by (rule roundEven_eqI) simp

lemma roundEven_ge: "of_int k \<le> r \<Longrightarrow> k \<le> roundEven r"
proof -
  assume "of_int k \<le> r"
  then have "k \<le> \<lfloor>r\<rfloor>" by (simp add: le_floor_iff)
  then show ?thesis by (auto simp: roundEven_def Let_def)
qed

lemma roundEven_le: "r \<le> of_int k \<Longrightarrow> roundEven r \<le> k"
proof (cases "r = of_int k")
  case True
  then show ?thesis by simp
next
  case False
  assume "r \<le> of_int k"
  with False have "r < of_int k" by simp
  then have "\<lfloor>r\<rfloor> < k" by (simp add: floor_less_iff)
  then show ?thesis by (auto simp: roundEven_def Let_def)
qed

lemma roundEven_mono: "r \<le> s \<Longrightarrow> roundEven r \<le> roundEven s"
proof -
  assume rs: "r \<le> s"
  then have fl: "\<lfloor>r\<rfloor> \<le> \<lfloor>s\<rfloor>" by (rule floor_mono)
  show ?thesis
  proof (cases "\<lfloor>r\<rfloor> = \<lfloor>s\<rfloor>")
    case True
    then show ?thesis using rs by (auto simp: roundEven_def Let_def)
  next
    case False
    with fl have "\<lfloor>r\<rfloor> + 1 \<le> \<lfloor>s\<rfloor>" by simp
    moreover have "roundEven r \<le> \<lfloor>r\<rfloor> + 1" by (auto simp: roundEven_def Let_def)
    moreover have "\<lfloor>s\<rfloor> \<le> roundEven s" by (auto simp: roundEven_def Let_def)
    ultimately show ?thesis by linarith
  qed
qed

lemma roundEven_minus: "roundEven (- r) = - roundEven r"
proof (cases "r = of_int \<lfloor>r\<rfloor>")
  case True
  then obtain k where "r = of_int k" by blast
  then show ?thesis by (simp flip: of_int_minus)
next
  case False
  then have f: "\<lfloor>- r\<rfloor> = - \<lfloor>r\<rfloor> - 1"
    by (intro floor_unique) (auto simp: less_le, linarith+)
  have nz: "0 < r - of_int \<lfloor>r\<rfloor>" using False by (simp add: less_le)
  show ?thesis
    using nz by (auto simp: roundEven_def Let_def f algebra_simps)
qed

lemma expo_eqI:
  assumes "2 powi e \<le> \<bar>v\<bar>" "\<bar>v\<bar> < 2 powi (e + 1)" "- 1022 \<le> e"
  shows "expo v = e"
proof -
  have "(0::real) < 2 powi e" by simp
  then have pos: "0 < \<bar>v\<bar>" using assms(1) by linarith
  have p1: "(2::real) powr (of_int e) = 2 powi e"
    by (rule powr_real_of_int') simp_all
  have p2: "(2::real) powr (of_int e + 1) = 2 powi (e + 1)"
    using powr_real_of_int'[of 2 "e + 1"] by simp
  have "\<lfloor>log 2 \<bar>v\<bar>\<rfloor> = e"
    using assms(1,2) by (intro floor_log_eq_powr_iff[THEN iffD2] pos) (simp_all add: p1 p2)
  then show ?thesis using pos assms(3) by (auto simp: expo_def)
qed

lemma expo_minus [simp]: "expo (- v) = expo v"
  by (simp add: expo_def)

lemma ulp_minus [simp]: "ulp (- v) = ulp v"
  by (simp add: ulp_def)

lemma ulp_pos [simp]: "0 < ulp v"
  by (simp add: ulp_def)

lemma ulp_nonneg [simp]: "0 \<le> ulp v"
  by (simp add: ulp_def)

lemma expo_ge: "- 1022 \<le> expo v"
  by (simp add: expo_def)

lemma abs_less_expo: "\<bar>v\<bar> < 2 powi (expo v + 1)"
proof (cases "v = 0")
  case True
  then show ?thesis by simp
next
  case False
  then have pos: "0 < \<bar>v\<bar>" by simp
  define e where "e = \<lfloor>log 2 \<bar>v\<bar>\<rfloor>"
  have p2: "(2::real) powr (of_int e + 1) = 2 powi (e + 1)"
    using powr_real_of_int'[of 2 "e + 1"] by simp
  have "\<bar>v\<bar> < 2 powr (of_int e + 1)"
    using floor_log_eq_powr_iff[of "\<bar>v\<bar>" 2 e] pos by (simp add: e_def)
  then have "\<bar>v\<bar> < 2 powi (e + 1)" by (simp only: p2)
  also have "\<dots> \<le> 2 powi (expo v + 1)"
    using False by (intro power_int_increasing) (simp_all add: expo_def e_def)
  finally show ?thesis .
qed

lemma expo_le_abs: "- 1022 < expo v \<Longrightarrow> 2 powi (expo v) \<le> \<bar>v\<bar>"
proof -
  assume a: "- 1022 < expo v"
  then have nz: "v \<noteq> 0" by (auto simp: expo_def)
  then have pos: "0 < \<bar>v\<bar>" by simp
  from a nz have e: "expo v = \<lfloor>log 2 \<bar>v\<bar>\<rfloor>" by (auto simp: expo_def max_def split: if_splits)
  have p1: "(2::real) powr (of_int \<lfloor>log 2 \<bar>v\<bar>\<rfloor>) = 2 powi \<lfloor>log 2 \<bar>v\<bar>\<rfloor>"
    by (rule powr_real_of_int') simp_all
  have "2 powr (of_int \<lfloor>log 2 \<bar>v\<bar>\<rfloor>) \<le> \<bar>v\<bar>"
    using floor_log_eq_powr_iff[of "\<bar>v\<bar>" 2 "\<lfloor>log 2 \<bar>v\<bar>\<rfloor>"] pos by simp
  then show ?thesis by (simp only: e p1)
qed

lemma expo_mono: "\<bar>v\<bar> \<le> \<bar>w\<bar> \<Longrightarrow> expo v \<le> expo w"
proof (cases "v = 0")
  case True
  then have "expo v = - 1022" by (simp add: expo_def)
  then show ?thesis using expo_ge[of w] by simp
next
  case False
  assume a: "\<bar>v\<bar> \<le> \<bar>w\<bar>"
  with False have w: "w \<noteq> 0" by auto
  have "log 2 \<bar>v\<bar> \<le> log 2 \<bar>w\<bar>" using a False by simp
  then have "\<lfloor>log 2 \<bar>v\<bar>\<rfloor> \<le> \<lfloor>log 2 \<bar>w\<bar>\<rfloor>" by (rule floor_mono)
  then show ?thesis using False w by (simp add: expo_def)
qed

lemma fl_eqI:
  assumes "2 powi e \<le> \<bar>v\<bar>" "\<bar>v\<bar> < 2 powi (e + 1)" "- 1022 \<le> e"
    and "\<bar>v / 2 powi (e - 52) - of_int k\<bar> < 1 / 2"
  shows "fl v = of_int k * 2 powi (e - 52)"
  using expo_eqI[OF assms(1-3)] roundEven_eqI[OF assms(4)] by (simp add: fl_def ulp_def)

lemma roundEven_0 [simp]: "roundEven 0 = 0"
  using roundEven_of_int[of 0] by simp

lemma fl_0 [simp]: "fl 0 = 0"
  by (simp add: fl_def)

lemma fl_minus: "fl (- v) = - fl v"
  by (simp add: fl_def roundEven_minus)

lemma fl_nonneg: "0 \<le> v \<Longrightarrow> 0 \<le> fl v"
proof -
  assume "0 \<le> v"
  then have "of_int 0 \<le> v / ulp v"
    using ulp_pos[of v] by (simp add: zero_le_divide_iff less_imp_le)
  then have "0 \<le> roundEven (v / ulp v)" by (rule roundEven_ge)
  then show ?thesis by (simp add: fl_def)
qed

lemma fl_mono_nonneg:
  assumes "0 \<le> v" "v \<le> w"
  shows "fl v \<le> fl w"
proof (cases "expo v = expo w")
  case True
  then have u: "ulp v = ulp w" by (simp add: ulp_def)
  have "v / ulp w \<le> w / ulp w" using assms(2) by (simp add: divide_right_mono)
  then have "roundEven (v / ulp w) \<le> roundEven (w / ulp w)" by (rule roundEven_mono)
  then show ?thesis unfolding fl_def u by (intro mult_right_mono) simp_all
next
  case False
  have "expo v \<le> expo w" using assms by (intro expo_mono) simp
  with False have lt: "expo v + 1 \<le> expo w" by simp
  then have big: "- 1022 < expo w" using expo_ge[of v] by linarith
  have "v / ulp v \<le> 2 powi (expo v + 1) / ulp v"
    using abs_less_expo[of v] assms(1) by (simp add: divide_right_mono)
  also have "\<dots> = of_int (2 ^ 53)" by (simp add: ulp_def power_int_diff power_int_add)
  finally have "roundEven (v / ulp v) \<le> 2 ^ 53" by (rule roundEven_le)
  then have "of_int (roundEven (v / ulp v)) \<le> (of_int (2 ^ 53) :: real)"
    by (simp only: of_int_le_iff)
  then have "fl v \<le> 2 ^ 53 * ulp v"
    unfolding fl_def by (intro mult_right_mono) simp_all
  also have "\<dots> = 2 powi (expo v + 1)" by (simp add: ulp_def power_int_diff power_int_add)
  also have "\<dots> \<le> 2 powi (expo w)" using lt by (intro power_int_increasing) simp_all
  also have "\<dots> = 2 ^ 52 * ulp w" by (simp add: ulp_def power_int_diff)
  also have "\<dots> \<le> fl w"
  proof -
    have "of_int (2 ^ 52) = 2 powi (expo w) / ulp w" by (simp add: ulp_def power_int_diff)
    also have "\<dots> \<le> w / ulp w"
      using expo_le_abs[OF big] assms by (simp add: divide_right_mono)
    finally have "2 ^ 52 \<le> roundEven (w / ulp w)" by (rule roundEven_ge)
    then have "(of_int (2 ^ 52) :: real) \<le> of_int (roundEven (w / ulp w))"
      by (simp only: of_int_le_iff)
    then show ?thesis unfolding fl_def by (intro mult_right_mono) simp_all
  qed
  finally show ?thesis .
qed

lemma fl_mono: "v \<le> w \<Longrightarrow> fl v \<le> fl w"
proof -
  assume a: "v \<le> w"
  consider "0 \<le> v" | "v < 0" "0 \<le> w" | "w < 0" by linarith
  then show ?thesis
  proof cases
    case 1
    then show ?thesis using a by (rule fl_mono_nonneg)
  next
    case 2
    have "0 \<le> fl (- v)" using 2 by (intro fl_nonneg) simp
    then have "fl v \<le> 0" by (simp add: fl_minus)
    also have "0 \<le> fl w" using 2 by (intro fl_nonneg)
    finally show ?thesis .
  next
    case 3
    have "fl (- w) \<le> fl (- v)" using 3 a by (intro fl_mono_nonneg) simp_all
    then show ?thesis by (simp add: fl_minus)
  qed
qed

lemma fl_abs: "fl \<bar>v\<bar> = \<bar>fl v\<bar>"
proof (cases "0 \<le> v")
  case True
  then show ?thesis using fl_nonneg[of v] by simp
next
  case False
  then have "0 \<le> fl (- v)" by (intro fl_nonneg) simp
  then show ?thesis using False by (simp add: fl_minus)
qed

text \<open>
  Rounding moves a real by at most half the spacing of its binade. The difference of two
  doubles is rounded with a relative error of at most \<open>1 / 2 ^ 53\<close>: in the lowest
  binade it is a double itself, because every double is a multiple of \<open>2 powi - 1074\<close>.
\<close>

lemma roundEven_err: "\<bar>of_int (roundEven r) - r\<bar> \<le> 1 / 2"
proof -
  have "of_int \<lfloor>r\<rfloor> \<le> r" "r < of_int \<lfloor>r\<rfloor> + 1" by linarith+
  then show ?thesis by (auto simp: roundEven_def Let_def)
qed

lemma fl_err_ulp: "\<bar>fl v - v\<bar> \<le> ulp v / 2"
proof -
  have nz: "ulp v \<noteq> 0" by (simp add: ulp_def)
  have "fl v - v = (of_int (roundEven (v / ulp v)) - v / ulp v) * ulp v"
    using nz by (simp add: fl_def algebra_simps)
  then have "\<bar>fl v - v\<bar> = \<bar>of_int (roundEven (v / ulp v)) - v / ulp v\<bar> * ulp v"
    by (simp add: abs_mult)
  also have "\<dots> \<le> 1 / 2 * ulp v"
    by (intro mult_right_mono roundEven_err) simp
  finally show ?thesis by simp
qed

lemma expo_le:
  assumes "\<bar>v\<bar> < 2 powi (e + 1)" "- 1022 \<le> e"
  shows "expo v \<le> e"
proof (rule ccontr)
  assume "\<not> expo v \<le> e"
  then have lt: "e + 1 \<le> expo v" by simp
  then have "- 1022 < expo v" using assms(2) by linarith
  then have "2 powi (expo v) \<le> \<bar>v\<bar>" by (rule expo_le_abs)
  moreover have "(2::real) powi (e + 1) \<le> 2 powi (expo v)"
    using lt by (intro power_int_increasing) simp_all
  ultimately show False using assms(1) by linarith
qed

lemma fl_err:
  assumes "\<bar>v\<bar> < 2 powi (e + 1)" "- 1022 \<le> e"
  shows "\<bar>fl v - v\<bar> \<le> 2 powi (e - 53)"
proof -
  have "expo v - 52 \<le> e - 52" using expo_le[OF assms] by simp
  then have "ulp v \<le> 2 powi (e - 52)"
    unfolding ulp_def by (intro power_int_increasing) simp_all
  moreover have "(2::real) powi (e - 52) / 2 = 2 powi (e - 53)"
    by (simp add: power_int_diff)
  ultimately show ?thesis using fl_err_ulp[of v] by linarith
qed

lemma fl_rel_normal:
  assumes "- 1022 < expo v"
  shows "\<bar>fl v - v\<bar> \<le> \<bar>v\<bar> / 2 ^ 53"
proof -
  have "ulp v / 2 = 2 powi (expo v) / 2 ^ 53"
    by (simp add: ulp_def power_int_diff)
  also have "\<dots> \<le> \<bar>v\<bar> / 2 ^ 53"
    using expo_le_abs[OF assms] by (intro divide_right_mono) simp_all
  finally show ?thesis using fl_err_ulp[of v] by linarith
qed

lemma double_grid:
  assumes "fl p = p"
  shows "\<exists>m::int. p = of_int m * 2 powi (- 1074)"
proof -
  define n where "n = nat (expo p + 1022)"
  have n: "expo p - 52 = int n + (- 1074)" using expo_ge[of p] by (simp add: n_def)
  have "(2::real) powi (expo p - 52) = 2 powi (int n) * 2 powi (- 1074)"
    unfolding n by (rule power_int_add) simp
  then have u: "ulp p = of_int (2 ^ n) * 2 powi (- 1074)"
    by (simp add: ulp_def)
  have "p = of_int (roundEven (p / ulp p)) * ulp p" using assms by (simp add: fl_def)
  also have "\<dots> = of_int (roundEven (p / ulp p) * 2 ^ n) * 2 powi (- 1074)"
    by (simp add: u)
  finally show ?thesis by blast
qed

lemma fl_diff_subnormal:
  assumes "fl p = p" "fl q = q" "expo (p - q) = - 1022"
  shows "fl (p - q) = p - q"
proof -
  obtain m where m: "p = of_int m * 2 powi (- 1074)" using double_grid[OF assms(1)] by blast
  obtain k where k: "q = of_int k * 2 powi (- 1074)" using double_grid[OF assms(2)] by blast
  define w where "w = p - q"
  have u: "ulp w = 2 powi (- 1074)" by (simp add: ulp_def assms(3) w_def)
  have d: "w = of_int (m - k) * 2 powi (- 1074)" by (simp add: w_def m k algebra_simps)
  have "w / 2 powi (- 1074) = of_int (m - k)" by (simp add: d)
  then have "fl w = of_int (m - k) * 2 powi (- 1074)"
    unfolding fl_def u by (simp only: roundEven_of_int)
  then show ?thesis using d by (simp add: w_def)
qed

lemma fl_diff_rel:
  assumes "fl p = p" "fl q = q"
  shows "\<bar>fl (p - q) - (p - q)\<bar> \<le> \<bar>p - q\<bar> / 2 ^ 53"
proof (cases "expo (p - q) = - 1022")
  case True
  then show ?thesis using fl_diff_subnormal[OF assms True] by simp
next
  case False
  then have "- 1022 < expo (p - q)" using expo_ge[of "p - q"] by linarith
  then show ?thesis by (rule fl_rel_normal)
qed

lemma rel_to_factor:
  fixes D d :: real
  assumes "\<bar>D - d\<bar> \<le> \<bar>d\<bar> / 2 ^ 53"
  shows "\<exists>\<delta>. \<bar>\<delta>\<bar> \<le> 1 / 2 ^ 53 \<and> D = d * (1 + \<delta>)"
proof (cases "d = 0")
  case True
  then have "D = 0" using assms by simp
  then show ?thesis using True by (intro exI[of _ 0]) simp
next
  case False
  define \<delta> where "\<delta> = (D - d) / d"
  have "\<bar>\<delta>\<bar> = \<bar>D - d\<bar> / \<bar>d\<bar>" by (simp add: \<delta>_def)
  also have "\<dots> \<le> (\<bar>d\<bar> / 2 ^ 53) / \<bar>d\<bar>" using assms by (intro divide_right_mono) simp_all
  also have "\<dots> = 1 / 2 ^ 53" using False by simp
  finally have "\<bar>\<delta>\<bar> \<le> 1 / 2 ^ 53" .
  moreover have "D = d * (1 + \<delta>)" using False by (simp add: \<delta>_def field_simps)
  ultimately show ?thesis by blast
qed

section \<open>Enclosures of \<open>arctan\<close> and \<open>pi\<close>\<close>

text \<open>
  The partial sums of the alternating series of \<open>arctan\<close> enclose its value. Machin's
  formula then encloses \<open>pi\<close> between two rationals that are \<open>2 / 10 ^ 20\<close> apart.
\<close>

lemma arctan_enclosure:
  assumes "0 < t" "t \<le> 1"
  shows "(\<Sum>i<2 * n. (- 1) ^ i * (1 / real (i * 2 + 1) * t ^ (i * 2 + 1))) \<le> arctan t"
    and "arctan t \<le> (\<Sum>i<2 * n + 1. (- 1) ^ i * (1 / real (i * 2 + 1) * t ^ (i * 2 + 1)))"
proof -
  have a: "\<bar>t\<bar> \<le> 1" using assms by simp
  have p: "0 < 1 / real (0 * 2 + 1) * t ^ (0 * 2 + 1)" using assms by simp
  from summable_Leibniz(2)[OF zeroseq_arctan_series[OF a] monoseq_arctan_series[OF a]] p
  have "arctan t \<in> {(\<Sum>i<2 * n. (- 1) ^ i * (1 / real (i * 2 + 1) * t ^ (i * 2 + 1))) ..
      (\<Sum>i<2 * n + 1. (- 1) ^ i * (1 / real (i * 2 + 1) * t ^ (i * 2 + 1)))}"
    unfolding arctan_series[OF a] by blast
  then show "(\<Sum>i<2 * n. (- 1) ^ i * (1 / real (i * 2 + 1) * t ^ (i * 2 + 1))) \<le> arctan t"
    and "arctan t \<le> (\<Sum>i<2 * n + 1. (- 1) ^ i * (1 / real (i * 2 + 1) * t ^ (i * 2 + 1)))"
    by simp_all
qed

lemma arctan_fifth:
  "0.197395559849880758370 \<le> arctan (1 / 5)"
  "arctan (1 / 5) \<le> 0.197395559849880758371"
proof -
  have "(0.197395559849880758370::real) \<le>
      (\<Sum>i<2 * 8. (- 1) ^ i * (1 / real (i * 2 + 1) * (1 / 5) ^ (i * 2 + 1)))"
    by (simp add: eval_nat_numeral)
  also have "\<dots> \<le> arctan (1 / 5)" by (rule arctan_enclosure) simp_all
  finally show "0.197395559849880758370 \<le> arctan (1 / 5)" .
  have "arctan (1 / 5) \<le>
      (\<Sum>i<2 * 8 + 1. (- 1) ^ i * (1 / real (i * 2 + 1) * (1 / 5) ^ (i * 2 + 1)))"
    by (rule arctan_enclosure) simp_all
  also have "\<dots> \<le> (0.197395559849880758371::real)"
    by (simp add: eval_nat_numeral)
  finally show "arctan (1 / 5) \<le> 0.197395559849880758371" .
qed

lemma arctan_239th:
  "0.004184076002074723864 \<le> arctan (1 / 239)"
  "arctan (1 / 239) \<le> 0.004184076002074723865"
proof -
  have "(0.004184076002074723864::real) \<le>
      (\<Sum>i<2 * 2. (- 1) ^ i * (1 / real (i * 2 + 1) * (1 / 239) ^ (i * 2 + 1)))"
    by (simp add: eval_nat_numeral)
  also have "\<dots> \<le> arctan (1 / 239)" by (rule arctan_enclosure) simp_all
  finally show "0.004184076002074723864 \<le> arctan (1 / 239)" .
  have "arctan (1 / 239) \<le>
      (\<Sum>i<2 * 2 + 1. (- 1) ^ i * (1 / real (i * 2 + 1) * (1 / 239) ^ (i * 2 + 1)))"
    by (rule arctan_enclosure) simp_all
  also have "\<dots> \<le> (0.004184076002074723865::real)"
    by (simp add: eval_nat_numeral)
  finally show "arctan (1 / 239) \<le> 0.004184076002074723865" .
qed

lemma pi_enclosure:
  "3.14159265358979323846 \<le> pi" "pi \<le> 3.14159265358979323848"
proof -
  have "pi = 16 * arctan (1 / 5) - 4 * arctan (1 / 239)"
    using machin by simp
  then show "3.14159265358979323846 \<le> pi" "pi \<le> 3.14159265358979323848"
    using arctan_fifth arctan_239th by simp_all
qed

section \<open>Doubles near \<open>pi\<close>\<close>

lemma fl_eq_ratI:
  assumes "2 powi e \<le> \<bar>v\<bar>" "\<bar>v\<bar> < 2 powi (e + 1)" "- 1022 \<le> e"
    and "(of_int k - 1 / 2) * 2 powi (e - 52) < v" "v < (of_int k + 1 / 2) * 2 powi (e - 52)"
    and "d = of_int k * 2 powi (e - 52)"
  shows "fl v = d"
proof -
  have p: "(0::real) < 2 powi (e - 52)" by simp
  have "of_int k - 1 / 2 < v / 2 powi (e - 52)" "v / 2 powi (e - 52) < of_int k + 1 / 2"
    using assms(4,5) p by (simp_all add: pos_less_divide_eq pos_divide_less_eq)
  then have "\<bar>v / 2 powi (e - 52) - of_int k\<bar> < 1 / 2" by linarith
  from fl_eqI[OF assms(1-3) this] assms(6) show ?thesis by simp
qed

lemma fl_pi: "fl pi = Math_PI"
  using pi_enclosure
  by (intro fl_eq_ratI[where e = 1 and k = 7074237752028440]) (simp_all add: Math_PI_def)



lemma fl_pi_three_quarters: "fl (3 * pi / 4) = 3 * Math_PI / 4"
  using pi_enclosure
  by (intro fl_eq_ratI[where e = 1 and k = 5305678314021330]) (simp_all add: Math_PI_def)

lemma fl_arctan_fifth: "fl (arctan (1 / 5)) = 7111924558276107 / 36028797018963968"
  using arctan_fifth
  by (intro fl_eq_ratI[where e = "- 3" and k = 7111924558276107]) simp_all

lemma fl_arctan_fifth_minus_pi:
  "fl (arctan (1 / 5) - pi) = - (828717808392023 / 281474976710656)"
  using arctan_fifth pi_enclosure
  by (intro fl_eq_ratI[where e = 1 and k = "- 6629742467136184"]) simp_all

lemma fl_int_small:
  assumes "2 powi e \<le> \<bar>v\<bar>" "\<bar>v\<bar> < 2 powi (e + 1)" "- 1022 \<le> e"
    and "v = of_int k * 2 powi (e - 52)"
  shows "fl v = v"
proof -
  have "v / 2 powi (e - 52) = of_int k" using assms(4) by simp
  then have "\<bar>v / 2 powi (e - 52) - of_int k\<bar> < 1 / 2" by simp
  from fl_eqI[OF assms(1-3) this] assms(4) show ?thesis by simp
qed

lemma fl_1: "fl 1 = 1"
  by (rule fl_int_small[where e = 0 and k = "2 ^ 52"]) simp_all

lemma fl_5: "fl 5 = 5"
  by (rule fl_int_small[where e = 2 and k = "5 * 2 ^ 50"]) simp_all

lemma fl_180: "fl 180 = 180"
  by (rule fl_int_small[where e = 7 and k = "180 * 2 ^ 45"]) simp_all

lemma overflow_small: "\<bar>r\<bar> < 2 ^ 1024 \<Longrightarrow> overflow r = Finite r"
  by (auto simp: overflow_def)

section \<open>The angle\<close>

text \<open>
  The angle that \<open>calculateAngle\<close> returns lies between 0 and 180, and it does not change
  when the two outer points are swapped. Both hold for the rounded value, because rounding
  is monotone and odd, \<open>360\<close> degrees and \<open>180\<close> degrees are doubles, and a full turn
  \<open>2 * Math_PI\<close> converts to exactly \<open>360\<close>. Of \<open>Math_atan2\<close> the symmetry uses nothing,
  and the range only that its result is at most \<open>Math_PI\<close> in absolute value.
\<close>

lemma atan2_bounds: "- pi < atan2 dy dx \<and> atan2 dy dx \<le> pi"
proof -
  have b: "- (pi / 2) < arctan (dy / dx)" "arctan (dy / dx) < pi / 2"
    by (rule arctan_lbound, rule arctan_ubound)
  have n: "arctan (dy / dx) \<le> 0" if "dx < 0" "0 \<le> dy"
  proof -
    have "dy / dx \<le> 0" using that by (simp add: divide_nonneg_neg)
    then have "arctan (dy / dx) \<le> arctan 0" by (simp only: arctan_le_iff)
    then show ?thesis by simp
  qed
  have p: "0 < arctan (dy / dx)" if "dx < 0" "dy < 0"
  proof -
    have "0 < dy / dx" using that by (simp add: divide_neg_neg)
    then have "arctan 0 < arctan (dy / dx)" by (simp only: arctan_less_iff)
    then show ?thesis by simp
  qed
  show ?thesis using b n p pi_gt_zero by (auto simp: atan2_def)
qed

lemma atan2_abs_le: "\<bar>atan2 dy dx\<bar> \<le> pi"
  using atan2_bounds[of dy dx] by linarith

lemma atan2_exact_bounds: "\<bar>atan2_exact dy dx\<bar> \<le> pi"
  using pi_gt_zero by (cases dy; cases dx) (simp_all add: atan2_abs_le)

lemma Math_atan2_bounds: "\<bar>Math_atan2 dy dx\<bar> \<le> Math_PI"
proof -
  have "\<bar>Math_atan2 dy dx\<bar> = fl \<bar>atan2_exact dy dx\<bar>"
    unfolding Math_atan2_def by (rule fl_abs[symmetric])
  also have "\<dots> \<le> fl pi" by (intro fl_mono atan2_exact_bounds)
  finally show ?thesis by (simp add: fl_pi)
qed

lemma fl_two_pi: "fl (2 * Math_PI) = 2 * Math_PI"
  by (rule fl_eq_ratI[where e = 2 and k = 7074237752028440]) (simp_all add: Math_PI_def)

lemma fl_full_turn: "fl (2 * Math_PI * 180) = 4974073419394997 / 4398046511104"
  by (rule fl_eq_ratI[where e = 10 and k = 4974073419394997]) (simp_all add: Math_PI_def)

lemma fl_full_turn_degrees: "fl (4974073419394997 / 4398046511104 / Math_PI) = 360"
  by (rule fl_eq_ratI[where e = 8 and k = 6333186975989760]) (simp_all add: Math_PI_def)

lemma Math_PI_pos: "0 < Math_PI"
  by (simp add: Math_PI_def)

lemma degrees_range:
  assumes "\<bar>p\<bar> \<le> Math_PI" "\<bar>q\<bar> \<le> Math_PI"
  shows "\<bar>fl (fl (fl (p - q) * 180) / Math_PI)\<bar> \<le> 360"
proof -
  have "\<bar>fl (p - q)\<bar> = fl \<bar>p - q\<bar>" by (rule fl_abs[symmetric])
  also have "\<dots> \<le> fl (2 * Math_PI)" using assms by (intro fl_mono) linarith
  finally have r: "\<bar>fl (p - q)\<bar> \<le> 2 * Math_PI" by (simp only: fl_two_pi)
  have "\<bar>fl (fl (p - q) * 180)\<bar> = fl \<bar>fl (p - q) * 180\<bar>"
    by (rule fl_abs[symmetric])
  also have "\<dots> \<le> fl (2 * Math_PI * 180)"
    using r by (intro fl_mono) (simp add: abs_mult)
  finally have m: "\<bar>fl (fl (p - q) * 180)\<bar> \<le> 4974073419394997 / 4398046511104"
    by (simp only: fl_full_turn)
  have "\<bar>fl (fl (fl (p - q) * 180) / Math_PI)\<bar> = fl \<bar>fl (fl (p - q) * 180) / Math_PI\<bar>"
    by (rule fl_abs[symmetric])
  also have "\<dots> \<le> fl (4974073419394997 / 4398046511104 / Math_PI)"
  proof (intro fl_mono)
    have "\<bar>fl (fl (p - q) * 180) / Math_PI\<bar> = \<bar>fl (fl (p - q) * 180)\<bar> / Math_PI"
      using Math_PI_pos by (simp only: abs_divide abs_of_pos)
    also have "\<dots> \<le> 4974073419394997 / 4398046511104 / Math_PI"
      using m Math_PI_pos by (intro divide_right_mono) simp_all
    finally show "\<bar>fl (fl (p - q) * 180) / Math_PI\<bar>
        \<le> 4974073419394997 / 4398046511104 / Math_PI" .
  qed
  finally show ?thesis by (simp only: fl_full_turn_degrees)
qed

lemma calculateAngle_range: "0 \<le> calculateAngle a b c \<and> calculateAngle a b c \<le> 180"
proof -
  define p where "p = Math_atan2 (minus_double (y c) (y b)) (minus_double (x c) (x b))"
  define q where "q = Math_atan2 (minus_double (y a) (y b)) (minus_double (x a) (x b))"
  define angle where "angle = \<bar>fl (fl (fl (p - q) * 180) / Math_PI)\<bar>"
  have le: "angle \<le> 360"
    unfolding angle_def by (intro degrees_range) (simp_all add: p_def q_def Math_atan2_bounds)
  have ge: "0 \<le> angle" by (simp add: angle_def)
  have c: "calculateAngle a b c = (if angle > 180 then fl (360 - angle) else angle)"
    by (simp add: calculateAngle_def Let_def angle_def p_def q_def)
  show ?thesis
  proof (cases "angle > 180")
    case True
    have "0 \<le> fl (360 - angle)" using le by (intro fl_nonneg) simp
    moreover have "fl (360 - angle) \<le> fl 180" using True by (intro fl_mono) simp
    ultimately show ?thesis using True by (simp add: c fl_180)
  next
    case False
    then show ?thesis using ge by (simp add: c)
  qed
qed

lemma calculateAngle_sym: "calculateAngle a b c = calculateAngle c b a"
proof -
  have "\<bar>fl (fl (fl (p - q) * 180) / Math_PI)\<bar> = \<bar>fl (fl (fl (q - p) * 180) / Math_PI)\<bar>"
    for p q :: real
  proof -
    have "fl (q - p) = - fl (p - q)" using fl_minus[of "p - q"] by simp
    then show ?thesis by (simp add: fl_minus)
  qed
  then show ?thesis by (simp add: calculateAngle_def Let_def)
qed

text \<open>
  On the line through \<open>(0, 0)\<close>, \<open>(5, 1)\<close> and \<open>(10, 2)\<close> the two polar angles round to
  doubles whose difference is the double next above \<open>Math_PI\<close>. It converts to
  \<open>180.00000000000003\<close>, which the last branch turns into \<open>179.99999999999997\<close>.
\<close>

lemma chain_r:
  "fl (7111924558276107 / 36028797018963968 - - (828717808392023 / 281474976710656))
     = 7074237752028441 / 2251799813685248"
  by (rule fl_eq_ratI[where e = 1 and k = 7074237752028441]) simp_all

lemma chain_m:
  "fl (7074237752028441 / 2251799813685248 * 180) = 2487036709697499 / 4398046511104"
  by (rule fl_eq_ratI[where e = 9 and k = 4974073419394998]) simp_all

lemma chain_q:
  "fl (2487036709697499 / 4398046511104 / Math_PI) = 6333186975989761 / 35184372088832"
  by (rule fl_eq_ratI[where e = 7 and k = 6333186975989761]) (simp_all add: Math_PI_def)

lemma chain_res:
  "fl (360 - 6333186975989761 / 35184372088832) = 6333186975989759 / 35184372088832"
  by (rule fl_eq_ratI[where e = 7 and k = 6333186975989759]) simp_all

lemma minus_double_small:
  "minus_double 2 1 = Finite 1" "minus_double 10 5 = Finite 5"
  "minus_double 0 1 = Finite (- 1)" "minus_double 0 5 = Finite (- 5)"
  using fl_minus[of 1] fl_minus[of 5]
  by (simp_all add: minus_double_def fl_1 fl_5 overflow_small)

lemma calculateAngle_off_by_rounding:
  "calculateAngle (point 0 0) (point 5 1) (point 10 2) = 6333186975989759 / 35184372088832"
proof -
  define p where "p = Math_atan2 (Finite 1) (Finite 5)"
  define q where "q = Math_atan2 (Finite (- 1)) (Finite (- 5))"
  define angle where "angle = \<bar>fl (fl (fl (p - q) * 180) / Math_PI)\<bar>"
  have p: "p = 7111924558276107 / 36028797018963968"
    by (simp add: p_def Math_atan2_def atan2_def fl_arctan_fifth)
  have q: "q = - (828717808392023 / 281474976710656)"
    by (simp add: q_def Math_atan2_def atan2_def fl_arctan_fifth_minus_pi)
  have "fl (fl (fl (p - q) * 180) / Math_PI) = 6333186975989761 / 35184372088832"
    by (simp only: p q chain_r chain_m chain_q)
  then have angle: "angle = 6333186975989761 / 35184372088832"
    by (simp add: angle_def)
  have "calculateAngle (point 0 0) (point 5 1) (point 10 2) =
      (if angle > 180 then fl (360 - angle) else angle)"
    by (simp add: calculateAngle_def Let_def point_def minus_double_small angle_def p_def q_def)
  also have "\<dots> = fl (360 - angle)" by (simp add: angle)
  also have "\<dots> = 6333186975989759 / 35184372088832" by (simp only: angle chain_res)
  finally show ?thesis .
qed

text \<open>Along the horizontal line through \<open>(0, 0)\<close>, \<open>(1, 0)\<close> and \<open>(2, 0)\<close> nothing rounds off.\<close>

lemma fl_2: "fl 2 = 2"
  by (rule fl_int_small[where e = 1 and k = "2 ^ 52"]) simp_all

lemma fl_10: "fl 10 = 10"
  by (rule fl_int_small[where e = 3 and k = "10 * 2 ^ 49"]) simp_all

lemma fl_Math_PI: "fl Math_PI = Math_PI"
  by (rule fl_int_small[where e = 1 and k = 7074237752028440]) (simp_all add: Math_PI_def)

lemma fl_half_turn: "fl (Math_PI * 180) = 4974073419394997 / 8796093022208"
  by (rule fl_eq_ratI[where e = 9 and k = 4974073419394997]) (simp_all add: Math_PI_def)

lemma fl_half_turn_degrees: "fl (4974073419394997 / 8796093022208 / Math_PI) = 180"
  by (rule fl_eq_ratI[where e = 7 and k = 6333186975989760]) (simp_all add: Math_PI_def)

lemma calculateAngle_eval:
  assumes "Math_atan2 (minus_double (y c) (y b)) (minus_double (x c) (x b)) = p"
    and "Math_atan2 (minus_double (y a) (y b)) (minus_double (x a) (x b)) = q"
    and "fl (p - q) = r" and "fl (r * 180) = m" and "fl (m / Math_PI) = d"
    and "\<bar>d\<bar> \<le> 180"
  shows "calculateAngle a b c = \<bar>d\<bar>"
  using assms(6) unfolding calculateAngle_def Let_def assms(1,2) assms(3) assms(4) assms(5)
  by simp

lemma Math_atan2_right: "0 < t \<Longrightarrow> Math_atan2 (Finite 0) (Finite t) = 0"
  by (simp add: Math_atan2_def atan2_def)

lemma Math_atan2_left: "t < 0 \<Longrightarrow> Math_atan2 (Finite 0) (Finite t) = Math_PI"
  by (simp add: Math_atan2_def atan2_def fl_pi)



lemma straight_angle:
  assumes "Math_atan2 (minus_double (y c) (y b)) (minus_double (x c) (x b)) = 0"
    and "Math_atan2 (minus_double (y a) (y b)) (minus_double (x a) (x b)) = Math_PI"
  shows "calculateAngle a b c = 180"
proof -
  have r: "fl (0 - Math_PI) = - Math_PI" by (simp add: fl_minus fl_Math_PI)
  have "- Math_PI * 180 = - (Math_PI * 180)" by simp
  then have m: "fl (- Math_PI * 180) = - (4974073419394997 / 8796093022208)"
    by (simp only: fl_minus fl_half_turn)
  have "- (4974073419394997 / 8796093022208) / Math_PI =
      - (4974073419394997 / 8796093022208 / Math_PI)" by simp
  then have d: "fl (- (4974073419394997 / 8796093022208) / Math_PI) = - 180"
    by (simp only: fl_minus fl_half_turn_degrees)
  from calculateAngle_eval[OF assms r m d] show ?thesis by simp
qed

lemma calculateAngle_horizontal: "calculateAngle (point 0 0) (point 1 0) (point 2 0) = 180"
proof (rule straight_angle)
  have "minus_double 2 1 = Finite 1" by (rule minus_double_small)
  then show "Math_atan2 (minus_double (y (point 2 0)) (y (point 1 0)))
      (minus_double (x (point 2 0)) (x (point 1 0))) = 0"
    by (simp add: point_def minus_double_def overflow_small Math_atan2_right)
  have "minus_double 0 1 = Finite (- 1)" by (rule minus_double_small)
  then show "Math_atan2 (minus_double (y (point 0 0)) (y (point 1 0)))
      (minus_double (x (point 0 0)) (x (point 1 0))) = Math_PI"
    by (simp add: point_def minus_double_def overflow_small Math_atan2_left)
qed

subsection \<open>The formula in exact arithmetic\<close>

text \<open>
  Without rounding, the angle is 180 whenever the vertex lies strictly between the two
  outer points on a line.
\<close>

lemma atan2_scale: "0 < k \<Longrightarrow> atan2 (k * dy) (k * dx) = atan2 dy dx"
  by (simp add: atan2_def zero_less_mult_iff mult_less_0_iff zero_le_mult_iff)

lemma atan2_opposite:
  assumes "dx \<noteq> 0 \<or> dy \<noteq> 0"
  shows "\<bar>atan2 (- dy) (- dx) - atan2 dy dx\<bar> = pi"
  using assms pi_gt_zero by (auto simp: atan2_def arctan_minus)

lemma angleBetween_colinear:
  assumes "0 < t" "t < 1"
    and "x b = x a + t * (x c - x a)" "y b = y a + t * (y c - y a)"
    and "x a \<noteq> x c \<or> y a \<noteq> y c"
  shows "angleBetween a b c = 180"
proof -
  define dx where "dx = x c - x a"
  define dy where "dy = y c - y a"
  have nz: "dx \<noteq> 0 \<or> dy \<noteq> 0" using assms(5) by (auto simp: dx_def dy_def)
  have c: "y c - y b = (1 - t) * dy" "x c - x b = (1 - t) * dx"
    using assms(3,4) by (simp_all add: dx_def dy_def algebra_simps)
  have a: "y a - y b = t * (- dy)" "x a - x b = t * (- dx)"
    using assms(3,4) by (simp_all add: dx_def dy_def algebra_simps)
  define r where "r = atan2 (y c - y b) (x c - x b) - atan2 (y a - y b) (x a - x b)"
  have e: "\<bar>r\<bar> = pi"
    unfolding r_def c a using atan2_scale[of "1 - t" dy dx] atan2_scale[of t "- dy" "- dx"]
      atan2_opposite[OF nz] assms(1,2) by (simp add: abs_minus_commute)
  have "\<bar>(r * 180) / pi\<bar> = \<bar>r\<bar> * 180 / pi"
    using pi_gt_zero by (simp add: abs_mult)
  also have "\<dots> = 180" by (simp add: e)
  finally have "\<bar>(r * 180) / pi\<bar> = 180" .
  then show ?thesis unfolding angleBetween_def Let_def r_def[symmetric] by simp
qed

subsection \<open>Colinear points in double precision\<close>

text \<open>
  A relative error of \<open>1 / 2 ^ 53\<close> in each of the two differences moves the polar angle
  of a ray by at most \<open>1 / 2 ^ 51\<close>, by the mean value theorem for \<open>arctan\<close>.
\<close>

lemma arctan_lipschitz:
  assumes "u < v" "\<And>z. u < z \<Longrightarrow> z < v \<Longrightarrow> c \<le> z\<^sup>2" "0 \<le> c"
  shows "\<bar>arctan v - arctan u\<bar> \<le> (v - u) / (1 + c)"
proof -
  have "\<exists>z. u < z \<and> z < v \<and> arctan v - arctan u = (v - u) * inverse (1 + z\<^sup>2)"
    using assms(1) by (intro MVT2 DERIV_arctan)
  then obtain z where z: "u < z" "z < v" "arctan v - arctan u = (v - u) * inverse (1 + z\<^sup>2)"
    by blast
  have "1 + c \<le> 1 + z\<^sup>2" using assms(2)[OF z(1,2)] by simp
  then have "inverse (1 + z\<^sup>2) \<le> inverse (1 + c)"
    using assms(3) by (intro le_imp_inverse_le) simp_all
  then have "(v - u) * inverse (1 + z\<^sup>2) \<le> (v - u) * inverse (1 + c)"
    using assms(1) by (intro mult_left_mono) simp_all
  moreover have "0 \<le> arctan v - arctan u" using assms(1) by (simp add: arctan_le_iff)
  ultimately show ?thesis using z(3) by (simp add: divide_inverse)
qed

lemma arctan_perturb:
  assumes "\<bar>\<eta>\<bar> \<le> 1 / 2"
  shows "\<bar>arctan (s * (1 + \<eta>)) - arctan s\<bar> \<le> \<bar>\<eta>\<bar>"
proof -
  define e where "e = s * \<eta>"
  define c where "c = s\<^sup>2 / 4"
  have s': "s * (1 + \<eta>) = s + e" by (simp add: e_def algebra_simps)
  have "\<bar>e\<bar> = \<bar>s\<bar> * \<bar>\<eta>\<bar>" by (simp add: e_def abs_mult)
  also have "\<dots> \<le> \<bar>s\<bar> * (1 / 2)" using assms by (intro mult_left_mono) simp_all
  finally have e: "\<bar>e\<bar> \<le> \<bar>s\<bar> / 2" by simp
  have c0: "0 \<le> c" by (simp add: c_def)
  have sq: "c \<le> z\<^sup>2" if "\<bar>s\<bar> / 2 \<le> \<bar>z\<bar>" for z
  proof -
    have "\<bar>s / 2\<bar> \<le> \<bar>z\<bar>" using that by simp
    then have "(s / 2)\<^sup>2 \<le> z\<^sup>2" by (simp only: abs_le_square_iff)
    then show ?thesis by (simp add: c_def power_divide)
  qed
  have "0 \<le> (\<bar>s\<bar> / 2 - 1)\<^sup>2" by simp
  then have le: "\<bar>s\<bar> \<le> 1 + c" by (simp add: power2_diff power_divide c_def)
  have bound: "\<bar>e\<bar> / (1 + c) \<le> \<bar>\<eta>\<bar>"
  proof -
    have "\<bar>e\<bar> = \<bar>\<eta>\<bar> * \<bar>s\<bar>" by (simp add: e_def abs_mult)
    also have "\<dots> \<le> \<bar>\<eta>\<bar> * (1 + c)" using le by (intro mult_left_mono) simp_all
    finally show ?thesis using c0 by (simp add: pos_divide_le_eq)
  qed
  consider "e = 0" | "0 < e" | "e < 0" by linarith
  then have "\<bar>arctan (s + e) - arctan s\<bar> \<le> \<bar>e\<bar> / (1 + c)"
  proof cases
    case 1
    then show ?thesis using c0 by simp
  next
    case 2
    have "\<bar>arctan (s + e) - arctan s\<bar> \<le> (s + e - s) / (1 + c)"
    proof (rule arctan_lipschitz)
      show "s < s + e" using 2 by simp
      show "c \<le> z\<^sup>2" if "s < z" "z < s + e" for z
        using that e by (intro sq) linarith
      show "0 \<le> c" by (rule c0)
    qed
    then show ?thesis using 2 by simp
  next
    case 3
    have "\<bar>arctan s - arctan (s + e)\<bar> \<le> (s - (s + e)) / (1 + c)"
    proof (rule arctan_lipschitz)
      show "s + e < s" using 3 by simp
      show "c \<le> z\<^sup>2" if "s + e < z" "z < s" for z
        using that e by (intro sq) linarith
      show "0 \<le> c" by (rule c0)
    qed
    then show ?thesis using 3 by (simp add: abs_minus_commute)
  qed
  then show ?thesis unfolding s' using bound by linarith
qed

lemma atan2_perturb:
  assumes "\<bar>\<delta>a\<bar> \<le> 1 / 2 ^ 53" "\<bar>\<delta>b\<bar> \<le> 1 / 2 ^ 53"
  shows "\<bar>atan2 (v * (1 + \<delta>a)) (u * (1 + \<delta>b)) - atan2 v u\<bar> \<le> 1 / 2 ^ 51"
proof -
  have pa: "0 < 1 + \<delta>a" and pb: "0 < 1 + \<delta>b" using assms by (simp_all add: abs_le_iff)
  define \<eta> where "\<eta> = (1 + \<delta>a) / (1 + \<delta>b) - 1"
  have "\<eta> * (1 + \<delta>b) = \<delta>a - \<delta>b" using pb by (simp add: \<eta>_def field_simps)
  then have m1: "\<bar>\<eta>\<bar> * (1 + \<delta>b) = \<bar>\<delta>a - \<delta>b\<bar>"
    using pb by (metis abs_mult abs_of_pos)
  have m2: "\<bar>\<eta>\<bar> * (1 / 2) \<le> \<bar>\<eta>\<bar> * (1 + \<delta>b)"
    using assms(2) by (intro mult_left_mono) (simp_all add: abs_le_iff)
  have m3: "\<bar>\<delta>a - \<delta>b\<bar> \<le> 2 / 2 ^ 53" using assms by linarith
  have "\<bar>\<eta>\<bar> * (1 / 2) \<le> 2 / 2 ^ 53" using m1 m2 m3 by linarith
  then have \<eta>: "\<bar>\<eta>\<bar> \<le> 1 / 2 ^ 51" by simp
  then have \<eta>2: "\<bar>\<eta>\<bar> \<le> 1 / 2" by simp
  have q: "(v * (1 + \<delta>a)) / (u * (1 + \<delta>b)) = (v / u) * (1 + \<eta>)"
    using pb by (simp add: \<eta>_def field_simps)
  have ar: "\<bar>arctan ((v * (1 + \<delta>a)) / (u * (1 + \<delta>b))) - arctan (v / u)\<bar> \<le> 1 / 2 ^ 51"
    unfolding q using arctan_perturb[OF \<eta>2, of "v / u"] \<eta> by linarith
  have su: "0 < u * (1 + \<delta>b) \<longleftrightarrow> 0 < u" "u * (1 + \<delta>b) < 0 \<longleftrightarrow> u < 0"
    using pb by (simp_all add: zero_less_mult_iff mult_less_0_iff)
  have sv: "0 < v * (1 + \<delta>a) \<longleftrightarrow> 0 < v" "v * (1 + \<delta>a) < 0 \<longleftrightarrow> v < 0"
    "0 \<le> v * (1 + \<delta>a) \<longleftrightarrow> 0 \<le> v"
    using pa by (simp_all add: zero_less_mult_iff mult_less_0_iff zero_le_mult_iff)
  show ?thesis
    unfolding atan2_def su sv using ar by (simp split: if_splits)
qed

text \<open>
  For two opposite rays the exact polar angles differ by \<open>pi\<close>. Each rounding on the way
  to the result adds at most half the spacing of the binade that it happens in, and the
  errors add up to less than \<open>1 / 2 ^ 42\<close> degrees.
\<close>

lemma fl_largest_binade: "fl (2 ^ 1023) = 2 ^ 1023"
  by (rule fl_int_small[where e = 1023 and k = "2 ^ 52"]) simp_all

lemma minus_double_finite:
  assumes "\<bar>p - q\<bar> < 2 ^ 1023"
  shows "minus_double p q = Finite (fl (p - q))"
proof -
  have "\<bar>fl (p - q)\<bar> = fl \<bar>p - q\<bar>" by (rule fl_abs[symmetric])
  also have "\<dots> \<le> fl (2 ^ 1023)" using assms by (intro fl_mono) simp
  finally have "\<bar>fl (p - q)\<bar> \<le> 2 ^ 1023" by (simp only: fl_largest_binade)
  moreover have "(2::real) ^ 1023 < 2 ^ 1024" by simp
  ultimately have "\<bar>fl (p - q)\<bar> < 2 ^ 1024" by ((simp only: abs_le_iff abs_less_iff)?; simp; linarith)
  then show ?thesis unfolding minus_double_def by (rule overflow_small)
qed

lemma polar_of_rounded:
  assumes "fl py = py" "fl qy = qy" "fl px = px" "fl qx = qx"
  shows "\<bar>atan2 (fl (py - qy)) (fl (px - qx)) - atan2 (py - qy) (px - qx)\<bar> \<le> 1 / 2 ^ 51"
proof -
  obtain \<delta>a where a: "\<bar>\<delta>a\<bar> \<le> 1 / 2 ^ 53" "fl (py - qy) = (py - qy) * (1 + \<delta>a)"
    using rel_to_factor[OF fl_diff_rel[OF assms(1,2)]] by blast
  obtain \<delta>b where b: "\<bar>\<delta>b\<bar> \<le> 1 / 2 ^ 53" "fl (px - qx) = (px - qx) * (1 + \<delta>b)"
    using rel_to_factor[OF fl_diff_rel[OF assms(3,4)]] by blast
  show ?thesis unfolding a(2) b(2) using a(1) b(1) by (rule atan2_perturb)
qed

lemma fl_polar_err: "\<bar>fl (atan2 v u) - atan2 v u\<bar> \<le> 1 / 2 ^ 52"
proof -
  have "\<bar>atan2 v u\<bar> < 2 powi (1 + 1)"
    using atan2_abs_le[of v u] pi_enclosure(2) by simp
  then have "\<bar>fl (atan2 v u) - atan2 v u\<bar> \<le> 2 powi (1 - 53)" by (rule fl_err) simp
  then show ?thesis by (simp add: power_int_minus field_simps)
qed

lemma Math_atan2_close:
  assumes "fl py = py" "fl qy = qy" "fl px = px" "fl qx = qx"
  shows "\<bar>Math_atan2 (Finite (fl (py - qy))) (Finite (fl (px - qx)))
           - atan2 (py - qy) (px - qx)\<bar> \<le> 3 / 2 ^ 52"
proof -
  have "Math_atan2 (Finite (fl (py - qy))) (Finite (fl (px - qx))) =
      fl (atan2 (fl (py - qy)) (fl (px - qx)))"
    by (simp add: Math_atan2_def)
  then show ?thesis
    using polar_of_rounded[OF assms] fl_polar_err[of "fl (py - qy)" "fl (px - qx)"]
    by ((simp only: abs_le_iff abs_less_iff)?; simp; linarith)
qed

lemma half_turn_close:
  assumes "w = pi" "\<bar>P - Q - w\<bar> \<le> 3 / 2 ^ 51"
  shows "\<bar>fl (fl (fl (P - Q) * 180) / Math_PI) - 180\<bar> \<le> 7 / 2 ^ 45"
proof -
  note pi = pi_enclosure
  define r where "r = fl (P - Q)"
  define m where "m = fl (r * 180)"
  define z where "z = m / Math_PI"
  define d where "d = fl z"
  have "\<bar>P - Q\<bar> < 2 powi (2 + 1)" using assms pi by ((simp only: abs_le_iff abs_less_iff)?; simp; linarith)
  then have "\<bar>r - (P - Q)\<bar> \<le> 2 powi (2 - 53)" unfolding r_def by (rule fl_err) simp
  then have r: "\<bar>r - (P - Q)\<bar> \<le> 1 / 2 ^ 51" by (simp add: power_int_minus field_simps)
  have r1: "pi - 4 / 2 ^ 51 \<le> r" "r \<le> pi + 4 / 2 ^ 51"
    using r assms by ((simp only: abs_le_iff abs_less_iff)?; simp; linarith)+
  have "\<bar>r * 180\<bar> < 2 powi (9 + 1)" using r1 pi by ((simp only: abs_le_iff abs_less_iff)?; simp; linarith)
  then have "\<bar>m - r * 180\<bar> \<le> 2 powi (9 - 53)" unfolding m_def by (rule fl_err) simp
  then have m: "\<bar>m - r * 180\<bar> \<le> 1 / 2 ^ 44" by (simp add: power_int_minus field_simps)
  have m1: "r * 180 - 1 / 2 ^ 44 \<le> m" "m \<le> r * 180 + 1 / 2 ^ 44"
    using m by ((simp only: abs_le_iff abs_less_iff)?; simp; linarith)+
  have z: "z * (884279719003555 / 281474976710656) = m"
    by (simp add: z_def Math_PI_def)
  have z1: "180 - 6 / 2 ^ 45 \<le> z" "z \<le> 180 + 6 / 2 ^ 45"
    using z m1 r1 pi by ((simp only: abs_le_iff abs_less_iff)?; simp; linarith)+
  have "\<bar>z\<bar> < 2 powi (7 + 1)" using z1 by ((simp only: abs_le_iff abs_less_iff)?; simp; linarith)
  then have "\<bar>d - z\<bar> \<le> 2 powi (7 - 53)" unfolding d_def by (rule fl_err) simp
  then have "\<bar>d - z\<bar> \<le> 1 / 2 ^ 46" by (simp add: power_int_minus field_simps)
  then have "\<bar>d - 180\<bar> \<le> 7 / 2 ^ 45" using z1 by ((simp only: abs_le_iff abs_less_iff)?; simp; linarith)
  then show ?thesis by (simp add: d_def z_def m_def r_def)
qed

lemma straight_chain:
  assumes "\<bar>w\<bar> = pi" "\<bar>P - Q - w\<bar> \<le> 3 / 2 ^ 51"
  shows "\<bar>(let radians = fl (P - Q); angle = \<bar>fl (fl (radians * 180) / Math_PI)\<bar>
           in if angle > 180 then fl (360 - angle) else angle) - 180\<bar> \<le> 1 / 2 ^ 42"
proof -
  define d where "d = fl (fl (fl (P - Q) * 180) / Math_PI)"
  have d: "\<bar>\<bar>d\<bar> - 180\<bar> \<le> 7 / 2 ^ 45"
  proof (cases "w = pi")
    case True
    from half_turn_close[OF True assms(2)] show ?thesis
      unfolding d_def by ((simp only: abs_le_iff abs_less_iff)?; simp; linarith)
  next
    case False
    then have w: "- w = pi" using assms(1) by (simp add: abs_if split: if_splits)
    have "\<bar>Q - P - (- w)\<bar> \<le> 3 / 2 ^ 51" using assms(2) by ((simp only: abs_le_iff abs_less_iff)?; simp; linarith)
    from half_turn_close[OF w this]
    have "\<bar>fl (fl (fl (Q - P) * 180) / Math_PI) - 180\<bar> \<le> 7 / 2 ^ 45" .
    moreover have "fl (fl (fl (Q - P) * 180) / Math_PI) = - d"
    proof -
      have "fl (Q - P) = - fl (P - Q)" using fl_minus[of "P - Q"] by simp
      then show ?thesis by (simp add: d_def fl_minus)
    qed
    ultimately show ?thesis by ((simp only: abs_le_iff abs_less_iff)?; simp; linarith)
  qed
  show ?thesis
  proof (cases "\<bar>d\<bar> > 180")
    case True
    have "\<bar>360 - \<bar>d\<bar>\<bar> < 2 powi (7 + 1)" using d True by ((simp only: abs_le_iff abs_less_iff)?; simp; linarith)
    then have "\<bar>fl (360 - \<bar>d\<bar>) - (360 - \<bar>d\<bar>)\<bar> \<le> 2 powi (7 - 53)" by (rule fl_err) simp
    then have "\<bar>fl (360 - \<bar>d\<bar>) - (360 - \<bar>d\<bar>)\<bar> \<le> 1 / 2 ^ 46"
      by (simp add: power_int_minus field_simps)
    then have "\<bar>fl (360 - \<bar>d\<bar>) - 180\<bar> \<le> 1 / 2 ^ 42" using d by ((simp only: abs_le_iff abs_less_iff)?; simp; linarith)
    then show ?thesis using True by (simp add: Let_def d_def)
  next
    case False
    have "\<bar>\<bar>d\<bar> - 180\<bar> \<le> 1 / 2 ^ 42" using d by ((simp only: abs_le_iff abs_less_iff)?; simp; linarith)
    then show ?thesis using False by (simp add: Let_def d_def)
  qed
qed

lemma calculateAngle_colinear_close:
  assumes "fl (x a) = x a" "fl (y a) = y a" "fl (x b) = x b" "fl (y b) = y b"
    "fl (x c) = x c" "fl (y c) = y c"
    and "0 < t" "t < 1"
    and "x b = x a + t * (x c - x a)" "y b = y a + t * (y c - y a)"
    and "x a \<noteq> x c \<or> y a \<noteq> y c"
    and "\<bar>x c - x a\<bar> < 2 ^ 1023" "\<bar>y c - y a\<bar> < 2 ^ 1023"
  shows "\<bar>calculateAngle a b c - 180\<bar> \<le> 1 / 2 ^ 42"
proof -
  define dx where "dx = x c - x a"
  define dy where "dy = y c - y a"
  have nz: "dx \<noteq> 0 \<or> dy \<noteq> 0" using assms(11) by (auto simp: dx_def dy_def)
  have c: "y c - y b = (1 - t) * dy" "x c - x b = (1 - t) * dx"
    using assms(9,10) by (simp_all add: dx_def dy_def algebra_simps)
  have a: "y a - y b = t * (- dy)" "x a - x b = t * (- dx)"
    using assms(9,10) by (simp_all add: dx_def dy_def algebra_simps)
  define w where "w = atan2 (y c - y b) (x c - x b) - atan2 (y a - y b) (x a - x b)"
  have w: "\<bar>w\<bar> = pi"
    unfolding w_def c a using atan2_scale[of "1 - t" dy dx] atan2_scale[of t "- dy" "- dx"]
      atan2_opposite[OF nz] assms(7,8) by (simp add: abs_minus_commute)
  have shrink: "\<bar>k * v\<bar> < 2 ^ 1023" if "0 < k" "k < 1" "\<bar>v\<bar> < 2 ^ 1023" for k v :: real
  proof -
    have "\<bar>k * v\<bar> = k * \<bar>v\<bar>" using that(1) by (simp add: abs_mult)
    also have "\<dots> \<le> 1 * \<bar>v\<bar>" using that(2) by (intro mult_right_mono) simp_all
    finally show ?thesis using that(3) by simp
  qed
  have d: "\<bar>dx\<bar> < 2 ^ 1023" "\<bar>dy\<bar> < 2 ^ 1023" "\<bar>- dx\<bar> < 2 ^ 1023" "\<bar>- dy\<bar> < 2 ^ 1023"
    using assms(12,13) unfolding dx_def dy_def abs_minus_cancel by this+
  have t: "0 < 1 - t" "1 - t < 1" using assms(7,8) by simp_all
  have small: "\<bar>y c - y b\<bar> < 2 ^ 1023" "\<bar>x c - x b\<bar> < 2 ^ 1023"
    "\<bar>y a - y b\<bar> < 2 ^ 1023" "\<bar>x a - x b\<bar> < 2 ^ 1023"
    unfolding c a
    by (rule shrink[OF t d(2)] shrink[OF t d(1)] shrink[OF assms(7,8) d(4)]
        shrink[OF assms(7,8) d(3)])+
  have f: "minus_double (y c) (y b) = Finite (fl (y c - y b))"
    "minus_double (x c) (x b) = Finite (fl (x c - x b))"
    "minus_double (y a) (y b) = Finite (fl (y a - y b))"
    "minus_double (x a) (x b) = Finite (fl (x a - x b))"
    by (rule minus_double_finite, rule small)+
  define P where "P = Math_atan2 (Finite (fl (y c - y b))) (Finite (fl (x c - x b)))"
  define Q where "Q = Math_atan2 (Finite (fl (y a - y b))) (Finite (fl (x a - x b)))"
  have "\<bar>P - atan2 (y c - y b) (x c - x b)\<bar> \<le> 3 / 2 ^ 52"
    unfolding P_def by (intro Math_atan2_close assms)
  moreover have "\<bar>Q - atan2 (y a - y b) (x a - x b)\<bar> \<le> 3 / 2 ^ 52"
    unfolding Q_def by (intro Math_atan2_close assms)
  ultimately have "\<bar>P - Q - w\<bar> \<le> 3 / 2 ^ 51" unfolding w_def by ((simp only: abs_le_iff abs_less_iff)?; simp; linarith)
  from straight_chain[OF w this] show ?thesis
    unfolding calculateAngle_def f P_def Q_def .
qed

lemma finite_points:
  "finiteLandmark (point 0 0)" "finiteLandmark (point 5 1)" "finiteLandmark (point 10 2)"
  by (simp_all add: finiteLandmark_def isDouble_def point_def fl_1 fl_2 fl_5 fl_10)

text \<open>
  Claim C9 says that \<open>calculateAngle\<close> returns exactly 180 for three colinear points with
  \<open>b\<close> strictly between \<open>a\<close> and \<open>c\<close>. The points \<open>(0, 0)\<close>, \<open>(5, 1)\<close> and \<open>(10, 2)\<close> have
  coordinates that are doubles, \<open>(5, 1)\<close> is the midpoint of the other two, and the result
  is the double just below 180.
\<close>

theorem colinear_not_exactly_180:
  "calculateAngle (point 0 0) (point 5 1) (point 10 2) = 6333186975989759 / 35184372088832 \<and>
   calculateAngle (point 0 0) (point 5 1) (point 10 2) \<noteq> 180 \<and>
   180 - calculateAngle (point 0 0) (point 5 1) (point 10 2) = 1 / 2 ^ 45 \<and>
   x (point 5 1) = x (point 0 0) + 1 / 2 * (x (point 10 2) - x (point 0 0)) \<and>
   y (point 5 1) = y (point 0 0) + 1 / 2 * (y (point 10 2) - y (point 0 0)) \<and>
   finiteLandmark (point 0 0) \<and> finiteLandmark (point 5 1) \<and> finiteLandmark (point 10 2)"
  unfolding calculateAngle_off_by_rounding by (simp add: finite_points) (simp add: point_def)

text \<open>
  Claim C9, amended: for all landmarks the returned angle lies in \<open>[0, 180]\<close> and is the
  same when \<open>a\<close> and \<open>c\<close> are swapped. For three colinear points with \<open>b\<close> strictly between
  \<open>a\<close> and \<open>c\<close> the formula is exactly 180 in exact arithmetic, and the double that the
  program returns differs from 180 by at most \<open>1 / 2 ^ 42\<close>, provided that the coordinates
  are doubles and that the coordinates of \<open>a\<close> and \<open>c\<close> differ by less than \<open>2 ^ 1023\<close>, so
  that no subtraction overflows.
\<close>

theorem calculateAngle_properties:
  "0 \<le> calculateAngle a b c \<and> calculateAngle a b c \<le> 180 \<and>
   calculateAngle a b c = calculateAngle c b a \<and>
   (0 < t \<and> t < 1 \<and> x b = x a + t * (x c - x a) \<and> y b = y a + t * (y c - y a) \<and>
    (x a \<noteq> x c \<or> y a \<noteq> y c) \<longrightarrow>
      angleBetween a b c = 180 \<and>
      (finiteLandmark a \<and> finiteLandmark b \<and> finiteLandmark c \<and>
       \<bar>x c - x a\<bar> < 2 ^ 1023 \<and> \<bar>y c - y a\<bar> < 2 ^ 1023 \<longrightarrow>
         \<bar>calculateAngle a b c - 180\<bar> \<le> 1 / 2 ^ 42))"
proof -
  have "\<bar>calculateAngle a b c - 180\<bar> \<le> 1 / 2 ^ 42"
    if "0 < t" "t < 1" "x b = x a + t * (x c - x a)" "y b = y a + t * (y c - y a)"
      "x a \<noteq> x c \<or> y a \<noteq> y c" "finiteLandmark a" "finiteLandmark b" "finiteLandmark c"
      "\<bar>x c - x a\<bar> < 2 ^ 1023" "\<bar>y c - y a\<bar> < 2 ^ 1023"
  proof -
    have "fl (x a) = x a" "fl (y a) = y a" "fl (x b) = x b" "fl (y b) = y b"
      "fl (x c) = x c" "fl (y c) = y c"
      using that(6-8) by (simp_all add: finiteLandmark_def isDouble_def)
    from calculateAngle_colinear_close[OF this that(1-5) that(9,10)] show ?thesis .
  qed
  then show ?thesis
    using calculateAngle_range[of a b c] calculateAngle_sym[of a b c]
      angleBetween_colinear[of t b a c] by blast
qed

text \<open>
  Claim C9, amended, on the line through \<open>(0, 0)\<close>, \<open>(5, 1)\<close> and \<open>(10, 2)\<close>, where the
  program returns \<open>180 - 1 / 2 ^ 45\<close>.
\<close>

theorem calculateAngle_properties_witness:
  "x (point 5 1) = x (point 0 0) + 1 / 2 * (x (point 10 2) - x (point 0 0)) \<and>
   y (point 5 1) = y (point 0 0) + 1 / 2 * (y (point 10 2) - y (point 0 0)) \<and>
   x (point 0 0) \<noteq> x (point 10 2) \<and>
   finiteLandmark (point 0 0) \<and> finiteLandmark (point 5 1) \<and> finiteLandmark (point 10 2) \<and>
   \<bar>x (point 10 2) - x (point 0 0)\<bar> < 2 ^ 1023 \<and>
   \<bar>y (point 10 2) - y (point 0 0)\<bar> < 2 ^ 1023 \<and>
   angleBetween (point 0 0) (point 5 1) (point 10 2) = 180 \<and>
   \<bar>calculateAngle (point 0 0) (point 5 1) (point 10 2) - 180\<bar> \<le> 1 / 2 ^ 42 \<and>
   calculateAngle (point 0 0) (point 5 1) (point 10 2) =
     calculateAngle (point 10 2) (point 5 1) (point 0 0)"
proof -
  have h: "x (point 5 1) = x (point 0 0) + 1 / 2 * (x (point 10 2) - x (point 0 0))"
    "y (point 5 1) = y (point 0 0) + 1 / 2 * (y (point 10 2) - y (point 0 0))"
    "x (point 0 0) \<noteq> x (point 10 2)"
    "\<bar>x (point 10 2) - x (point 0 0)\<bar> < 2 ^ 1023"
    "\<bar>y (point 10 2) - y (point 0 0)\<bar> < 2 ^ 1023"
    by (simp_all add: point_def)
  have t: "(0::real) < 1 / 2" "(1::real) / 2 < 1" by simp_all
  from calculateAngle_properties[of "point 0 0" "point 5 1" "point 10 2" "1 / 2"] t h finite_points
  show ?thesis by blast
qed

section \<open>The arm check\<close>

subsection \<open>The front-facing classifier on the level frame\<close>




















subsection \<open>The side-view classifier\<close>


















section \<open>The stability gate\<close>

lemma feed_Cons_snd:
  "snd (feed opts st (f # fs)) =
     snd (detectPose opts st f) # snd (feed opts (fst (detectPose opts st f)) fs)"
  by (simp split: prod.splits)

lemma feed_Cons_fst:
  "fst (feed opts st (f # fs)) = fst (feed opts (fst (detectPose opts st f)) fs)"
  by (simp split: prod.splits)

lemma feed_append_fst:
  "fst (feed opts st (fs @ gs)) = fst (feed opts (fst (feed opts st fs)) gs)"
  by (induction fs arbitrary: st) (simp_all add: feed_Cons_fst del: feed.simps(2))

lemma detectPose_passes:
  assumes "passes f"
  shows "plankDetectedCount (fst (detectPose opts st f)) = plankDetectedCount st + 1"
    and "plankLostCount (fst (detectPose opts st f)) = 0"
    and "isPlankActive (fst (detectPose opts st f)) =
           (isPlankActive st \<or> stabilityFrames opts \<le> plankDetectedCount st + 1)"
    and "snd (detectPose opts st f) =
           (if \<not> isPlankActive st \<and> stabilityFrames opts \<le> plankDetectedCount st + 1
            then [PlankDetected] else [])"
  using assms
  by (auto simp: passes_def detectPose_def countPass_def Let_def split: list.splits sum.splits)

lemma detectPose_fails:
  assumes "fails f"
  shows "plankLostCount (fst (detectPose opts st f)) = plankLostCount st + 1"
    and "plankDetectedCount (fst (detectPose opts st f)) = 0"
    and "isPlankActive (fst (detectPose opts st f)) =
           (isPlankActive st \<and> plankLostCount st + 1 < gracePeriodFrames opts)"
    and "snd (detectPose opts st f) =
           (if isPlankActive st \<and> gracePeriodFrames opts \<le> plankLostCount st + 1
            then [PlankLost] else [])"
  using assms
  by (auto simp: fails_def detectPose_def countFail_def Let_def split: list.splits sum.splits)

lemma passes_while_active:
  "isPlankActive st \<Longrightarrow> \<forall>f\<in>set fs. passes f \<Longrightarrow>
     snd (feed opts st fs) = map (\<lambda>i. []) [0..<length fs] \<and>
     isPlankActive (fst (feed opts st fs))"
proof (induction fs arbitrary: st)
  case Nil
  then show ?case by simp
next
  case (Cons f fs)
  have p: "passes f" using Cons.prems by simp
  have a: "isPlankActive (fst (detectPose opts st f))"
    using Cons.prems(1) by (simp add: detectPose_passes(3)[OF p])
  have e: "snd (detectPose opts st f) = []"
    using Cons.prems(1) by (simp add: detectPose_passes(4)[OF p])
  from Cons.IH[OF a] Cons.prems(2) e show ?case
    by (simp add: feed_Cons_snd feed_Cons_fst map_upt_Suc del: feed.simps upt_Suc)
qed

lemma passes_while_inactive:
  "\<not> isPlankActive st \<Longrightarrow> plankDetectedCount st < stabilityFrames opts \<Longrightarrow>
   \<forall>f\<in>set fs. passes f \<Longrightarrow>
     snd (feed opts st fs) =
       map (\<lambda>i. if plankDetectedCount st + int i + 1 = stabilityFrames opts
                 then [PlankDetected] else []) [0..<length fs] \<and>
     isPlankActive (fst (feed opts st fs)) =
       (stabilityFrames opts \<le> plankDetectedCount st + int (length fs))"
proof (induction fs arbitrary: st)
  case Nil
  then show ?case by simp
next
  case (Cons f fs)
  let ?st = "fst (detectPose opts st f)"
  have p: "passes f" and ps: "\<forall>f\<in>set fs. passes f" using Cons.prems by simp_all
  note dp = detectPose_passes[OF p, of opts st]
  show ?case
  proof (cases "stabilityFrames opts \<le> plankDetectedCount st + 1")
    case True
    then have eq: "plankDetectedCount st + 1 = stabilityFrames opts"
      using Cons.prems(2) by simp
    have a: "isPlankActive ?st" using True by (simp add: dp(3))
    have e: "snd (detectPose opts st f) = [PlankDetected]"
      using True Cons.prems(1) by (simp add: dp(4))
    from passes_while_active[OF a ps, of opts] e eq show ?thesis
      by (auto simp add: feed_Cons_snd feed_Cons_fst map_upt_Suc simp del: feed.simps upt_Suc)
  next
    case False
    have a: "\<not> isPlankActive ?st" using False Cons.prems(1) by (simp add: dp(3))
    have c: "plankDetectedCount ?st < stabilityFrames opts" using False by (simp add: dp(1))
    have e: "snd (detectPose opts st f) = []" using False by (simp add: dp(4))
    from Cons.IH[OF a c ps] e False show ?thesis
      by (auto simp add: feed_Cons_snd feed_Cons_fst map_upt_Suc dp(1) algebra_simps
          simp del: feed.simps upt_Suc)
  qed
qed

lemma fails_while_inactive:
  "\<not> isPlankActive st \<Longrightarrow> \<forall>f\<in>set fs. fails f \<Longrightarrow>
     snd (feed opts st fs) = map (\<lambda>i. []) [0..<length fs] \<and>
     \<not> isPlankActive (fst (feed opts st fs))"
proof (induction fs arbitrary: st)
  case Nil
  then show ?case by simp
next
  case (Cons f fs)
  have p: "fails f" using Cons.prems by simp
  have a: "\<not> isPlankActive (fst (detectPose opts st f))"
    using Cons.prems(1) by (simp add: detectPose_fails(3)[OF p])
  have e: "snd (detectPose opts st f) = []"
    using Cons.prems(1) by (simp add: detectPose_fails(4)[OF p])
  from Cons.IH[OF a] Cons.prems(2) e show ?case
    by (simp add: feed_Cons_snd feed_Cons_fst map_upt_Suc del: feed.simps upt_Suc)
qed

lemma fails_while_active:
  "isPlankActive st \<Longrightarrow> plankLostCount st < gracePeriodFrames opts \<Longrightarrow>
   \<forall>f\<in>set fs. fails f \<Longrightarrow>
     snd (feed opts st fs) =
       map (\<lambda>i. if plankLostCount st + int i + 1 = gracePeriodFrames opts
                 then [PlankLost] else []) [0..<length fs] \<and>
     isPlankActive (fst (feed opts st fs)) =
       (plankLostCount st + int (length fs) < gracePeriodFrames opts) \<and>
     (plankLostCount st + int (length fs) < gracePeriodFrames opts \<longrightarrow>
        plankLostCount (fst (feed opts st fs)) = plankLostCount st + int (length fs))"
proof (induction fs arbitrary: st)
  case Nil
  then show ?case by simp
next
  case (Cons f fs)
  let ?st = "fst (detectPose opts st f)"
  have p: "fails f" and ps: "\<forall>f\<in>set fs. fails f" using Cons.prems by simp_all
  note dp = detectPose_fails[OF p, of opts st]
  show ?case
  proof (cases "gracePeriodFrames opts \<le> plankLostCount st + 1")
    case True
    then have eq: "plankLostCount st + 1 = gracePeriodFrames opts"
      using Cons.prems(2) by simp
    have a: "\<not> isPlankActive ?st" using True by (simp add: dp(3))
    have e: "snd (detectPose opts st f) = [PlankLost]"
      using True Cons.prems(1) by (simp add: dp(4))
    from fails_while_inactive[OF a ps, of opts] e eq show ?thesis
      by (auto simp add: feed_Cons_snd feed_Cons_fst map_upt_Suc simp del: feed.simps upt_Suc)
  next
    case False
    have a: "isPlankActive ?st" using False Cons.prems(1) by (simp add: dp(3))
    have c: "plankLostCount ?st < gracePeriodFrames opts" using False by (simp add: dp(1))
    have e: "snd (detectPose opts st f) = []" using False by (simp add: dp(4))
    from Cons.IH[OF a c ps] e False show ?thesis
      by (auto simp add: feed_Cons_snd feed_Cons_fst map_upt_Suc dp(1) algebra_simps
          simp del: feed.simps upt_Suc)
  qed
qed

lemma passes_good: "passes [goodFrame]"
  by (simp add: passes_def detect_good goodResult_def)

lemma fails_bad: "fails [badFrame]"
  by (simp add: fails_def detect_bad badResult_def)

lemma fails_nobody: "fails []"
  by (simp add: fails_def)

text \<open>
  Claim C2: from an inactive gate with no pass counted, and a stability threshold of at
  least 1, a run of passing frames fires \<open>PlankDetected\<close> on the frame whose number is the
  threshold and on no other frame. Fewer frames than the threshold fire nothing, and the
  passing frames after the edge fire nothing.
\<close>

theorem acquisition_edge:
  assumes "1 \<le> stabilityFrames opts"
    and "\<not> isPlankActive st" and "plankDetectedCount st = 0"
    and "\<forall>f\<in>set fs. passes f"
  shows "snd (feed opts st fs) =
           map (\<lambda>i. if int i + 1 = stabilityFrames opts then [PlankDetected] else [])
             [0..<length fs] \<and>
         isPlankActive (fst (feed opts st fs)) = (stabilityFrames opts \<le> int (length fs))"
  using passes_while_inactive[of st opts fs] assms by simp

text \<open>Claim C2 under the default threshold of 5, for 4, 5 and 7 passing frames.\<close>

theorem acquisition_edge_witness:
  "1 \<le> stabilityFrames defaultOptions \<and>
   \<not> isPlankActive initialState \<and> plankDetectedCount initialState = 0 \<and>
   passes [goodFrame] \<and>
   snd (feed defaultOptions initialState (replicate 4 [goodFrame])) = [[], [], [], []] \<and>
   snd (feed defaultOptions initialState (replicate 5 [goodFrame])) =
     [[], [], [], [], [PlankDetected]] \<and>
   snd (feed defaultOptions initialState (replicate 7 [goodFrame])) =
     [[], [], [], [], [PlankDetected], [], []]"
proof -
  have o: "1 \<le> stabilityFrames defaultOptions" by (simp add: defaultOptions_def)
  have i: "\<not> isPlankActive initialState" and c: "plankDetectedCount initialState = 0"
    by (simp_all add: initialState_def)
  have p: "\<forall>f\<in>set (replicate n [goodFrame]). passes f" for n
    using passes_good by simp
  from acquisition_edge[OF o i c p[of 4]] acquisition_edge[OF o i c p[of 5]]
    acquisition_edge[OF o i c p[of 7]] o i c passes_good
  show ?thesis by (simp add: defaultOptions_def upt_rec)
qed

text \<open>
  Claim C3 takes 30 for the default grace period. The hook's default is 10: under the
  default options an active gate fires \<open>PlankLost\<close> on the tenth failing frame.
\<close>

theorem default_grace_is_ten:
  "gracePeriodFrames defaultOptions = 10 \<and>
   isPlankActive activeState \<and> plankLostCount activeState = 0 \<and>
   snd (feed defaultOptions activeState (replicate 10 [])) =
     [[], [], [], [], [], [], [], [], [], [PlankLost]] \<and>
   \<not> isPlankActive (fst (feed defaultOptions activeState (replicate 10 [])))"
proof -
  have g: "gracePeriodFrames defaultOptions = 10" by (simp add: defaultOptions_def)
  have a: "isPlankActive activeState" and c: "plankLostCount activeState = 0"
    by (simp_all add: activeState_def)
  have f: "\<forall>f\<in>set (replicate 10 []). fails f" using fails_nobody by simp
  from fails_while_active[OF a _ f, of defaultOptions] g a c
  show ?thesis by (simp add: upt_rec)
qed

text \<open>
  Claim C3, amended: for a grace period \<open>gracePeriodFrames\<close> of at least 1 (10 by the
  hook's default, 30 as the recorder component sets it), an active gate with no failure
  counted fires \<open>PlankLost\<close> on the failing frame whose number is the grace period and on
  no other failing frame; frames without a person count as failing. A passing frame after
  fewer failing frames than the grace period fires nothing, keeps the gate active and
  sets the failure counter to 0.
\<close>

theorem loss_edge:
  assumes "1 \<le> gracePeriodFrames opts"
    and "isPlankActive st" and "plankLostCount st = 0"
    and "\<forall>f\<in>set fs. fails f"
  shows "snd (feed opts st fs) =
           map (\<lambda>i. if int i + 1 = gracePeriodFrames opts then [PlankLost] else [])
             [0..<length fs] \<and>
         isPlankActive (fst (feed opts st fs)) = (int (length fs) < gracePeriodFrames opts) \<and>
         (int (length fs) < gracePeriodFrames opts \<and> passes p \<longrightarrow>
            snd (detectPose opts (fst (feed opts st fs)) p) = [] \<and>
            isPlankActive (fst (detectPose opts (fst (feed opts st fs)) p)) \<and>
            plankLostCount (fst (detectPose opts (fst (feed opts st fs)) p)) = 0)"
proof -
  have lt: "plankLostCount st < gracePeriodFrames opts" using assms(1,3) by simp
  note w = fails_while_active[OF assms(2) lt assms(4)]
  have "snd (detectPose opts (fst (feed opts st fs)) p) = [] \<and>
        isPlankActive (fst (detectPose opts (fst (feed opts st fs)) p)) \<and>
        plankLostCount (fst (detectPose opts (fst (feed opts st fs)) p)) = 0"
    if "int (length fs) < gracePeriodFrames opts" "passes p"
    using w that assms(3) by (simp add: detectPose_passes[OF that(2)])
  then show ?thesis using w assms(3) by simp
qed

text \<open>
  Claim C3, amended, under the recorder's options: 15 failing classifications followed by
  15 frames without a person, and the same run one frame shorter followed by a passing
  frame.
\<close>

theorem loss_edge_witness:
  "1 \<le> gracePeriodFrames recorderOptions \<and>
   isPlankActive activeState \<and> plankLostCount activeState = 0 \<and>
   fails [badFrame] \<and> fails [] \<and> passes [goodFrame] \<and>
   snd (feed recorderOptions activeState (replicate 15 [badFrame] @ replicate 15 [])) =
     replicate 29 [] @ [[PlankLost]] \<and>
   snd (feed recorderOptions activeState (replicate 15 [badFrame] @ replicate 14 [])) =
     replicate 29 [] \<and>
   snd (detectPose recorderOptions
     (fst (feed recorderOptions activeState (replicate 15 [badFrame] @ replicate 14 [])))
     [goodFrame]) = [] \<and>
   isPlankActive (fst (detectPose recorderOptions
     (fst (feed recorderOptions activeState (replicate 15 [badFrame] @ replicate 14 [])))
     [goodFrame])) \<and>
   plankLostCount (fst (detectPose recorderOptions
     (fst (feed recorderOptions activeState (replicate 15 [badFrame] @ replicate 14 [])))
     [goodFrame])) = 0"
proof -
  have o: "1 \<le> gracePeriodFrames recorderOptions" by (simp add: recorderOptions_def)
  have a: "isPlankActive activeState" and c: "plankLostCount activeState = 0"
    by (simp_all add: activeState_def)
  have f: "\<forall>f\<in>set (replicate 15 [badFrame] @ replicate n []). fails f" for n
    using fails_bad fails_nobody by auto
  have m30: "map (\<lambda>i. if int i + 1 = 30 then [PlankLost] else []) [0..<30] =
      replicate 29 [] @ [[PlankLost]]"
    by code_simp
  have m29: "map (\<lambda>i. if int i + 1 = 30 then [PlankLost] else []) [0..<29] =
      replicate 29 ([] :: GateEvent list)"
    by code_simp
  from loss_edge[OF o a c f[of 15], of "[goodFrame]"]
    loss_edge[OF o a c f[of 14], of "[goodFrame]"] o a c fails_bad fails_nobody
    passes_good m30 m29
  show ?thesis by (simp add: recorderOptions_def)
qed

end

